theory Spec2Isabelle
  imports Main "HOL-Library.AList"
begin

section \<open>Go strings as byte lists\<close>

text \<open>
  A Go string is a sequence of bytes; it is modelled as a \<open>string\<close> (a list of
  8-bit characters).  The functions of package \<open>strings\<close> that \<open>wenv.go\<close> calls are
  modelled below at the arguments the program passes: every separator and every replaced
  substring in the source is a single ASCII byte.
\<close>

definition slash :: char where
  "slash = CHR ''/''"

definition bslash :: char where
  "bslash = CHR 0x5C"

text \<open>\<open>strings.Replace(s, old, new, -1)\<close> for one-byte \<open>old\<close> and \<open>new\<close>.\<close>

definition strings_Replace :: "string \<Rightarrow> char \<Rightarrow> char \<Rightarrow> string" where
  "strings_Replace s old new = map (\<lambda>c. if c = old then new else c) s"

text \<open>\<open>strings.HasPrefix(s, prefix)\<close>.\<close>

definition strings_HasPrefix :: "string \<Rightarrow> string \<Rightarrow> bool" where
  "strings_HasPrefix s p = (take (length p) s = p)"

text \<open>\<open>strings.Contains(s, substr)\<close>.\<close>

fun strings_Contains :: "string \<Rightarrow> string \<Rightarrow> bool" where
  "strings_Contains [] sub = (sub = [])"
| "strings_Contains (c # cs) sub =
     (strings_HasPrefix (c # cs) sub \<or> strings_Contains cs sub)"

text \<open>
  \<open>strings.Split(s, sep)\<close> for a one-byte separator: the pieces between the
  separators, one more piece than there are separators, so that the empty string splits
  into one empty piece.
\<close>

fun strings_Split :: "string \<Rightarrow> char \<Rightarrow> string list" where
  "strings_Split [] sep = [[]]"
| "strings_Split (c # cs) sep =
     (if c = sep then [] # strings_Split cs sep
      else (case strings_Split cs sep of
              [] \<Rightarrow> [[c]]
            | w # ws \<Rightarrow> (c # w) # ws))"

text \<open>
  \<open>strings.SplitN(s, sep, 2)\<close> for a one-byte separator: the string itself when it
  has no separator, otherwise the part before the first separator and everything after it.
\<close>

definition strings_SplitN2 :: "string \<Rightarrow> char \<Rightarrow> string list" where
  "strings_SplitN2 s sep =
     (case dropWhile (\<lambda>c. c \<noteq> sep) s of
        [] \<Rightarrow> [s]
      | _ # rest \<Rightarrow> [takeWhile (\<lambda>c. c \<noteq> sep) s, rest])"

text \<open>\<open>strings.Join(elems, sep)\<close>.\<close>

fun strings_Join :: "string list \<Rightarrow> string \<Rightarrow> string" where
  "strings_Join [] sep = []"
| "strings_Join [x] sep = x"
| "strings_Join (x # y # zs) sep = x @ sep @ strings_Join (y # zs) sep"

text \<open>
  \<open>strings.TrimSpace\<close> strips, from both ends, every rune for which
  \<open>unicode.IsSpace\<close> holds.  Go decodes the string as UTF-8, so a white-space rune
  is one of the byte sequences below: the six ASCII ones, U+0085 and U+00A0, U+1680,
  U+2000 to U+200A, U+2028, U+2029, U+202F, U+205F and U+3000.  A byte that does not
  start a valid encoding decodes to U+FFFD, which is not white space.
\<close>

definition space_runes :: "string list" where
  "space_runes =
     [[CHR 0x09], [CHR 0x0A], [CHR 0x0B], [CHR 0x0C], [CHR 0x0D], [CHR 0x20],
      [CHR 0xC2, CHR 0x85], [CHR 0xC2, CHR 0xA0],
      [CHR 0xE1, CHR 0x9A, CHR 0x80],
      [CHR 0xE2, CHR 0x80, CHR 0x80], [CHR 0xE2, CHR 0x80, CHR 0x81],
      [CHR 0xE2, CHR 0x80, CHR 0x82], [CHR 0xE2, CHR 0x80, CHR 0x83],
      [CHR 0xE2, CHR 0x80, CHR 0x84], [CHR 0xE2, CHR 0x80, CHR 0x85],
      [CHR 0xE2, CHR 0x80, CHR 0x86], [CHR 0xE2, CHR 0x80, CHR 0x87],
      [CHR 0xE2, CHR 0x80, CHR 0x88], [CHR 0xE2, CHR 0x80, CHR 0x89],
      [CHR 0xE2, CHR 0x80, CHR 0x8A],
      [CHR 0xE2, CHR 0x80, CHR 0xA8], [CHR 0xE2, CHR 0x80, CHR 0xA9],
      [CHR 0xE2, CHR 0x80, CHR 0xAF],
      [CHR 0xE2, CHR 0x81, CHR 0x9F],
      [CHR 0xE3, CHR 0x80, CHR 0x80]]"

text \<open>The number of bytes of the white-space rune at the head of \<open>s\<close>, 0 if none.\<close>

definition space_width :: "string \<Rightarrow> nat" where
  "space_width s =
     (case find (strings_HasPrefix s) space_runes of
        None \<Rightarrow> 0
      | Some q \<Rightarrow> length q)"

text \<open>
  \<open>trim_left\<close> is \<open>strings.TrimLeftFunc(s, unicode.IsSpace)\<close>.  The recursion
  is on the bytes: \<open>skip\<close> counts the bytes of the current rune still to be dropped.
\<close>

fun trim_from :: "nat \<Rightarrow> string \<Rightarrow> string" where
  "trim_from skip [] = []"
| "trim_from (Suc k) (c # cs) = trim_from k cs"
| "trim_from 0 (c # cs) =
     (case space_width (c # cs) of
        0 \<Rightarrow> c # cs
      | Suc k \<Rightarrow> trim_from k cs)"

definition trim_left :: "string \<Rightarrow> string" where
  "trim_left s = trim_from 0 s"

text \<open>
  At the right end Go decodes the last rune backwards; a white-space rune ends the string
  exactly when its encoding is a suffix, so the right trim is the left trim of the
  reversed string against the reversed encodings.
\<close>

definition space_width_rev :: "string \<Rightarrow> nat" where
  "space_width_rev s =
     (case find (\<lambda>q. strings_HasPrefix s (rev q)) space_runes of
        None \<Rightarrow> 0
      | Some q \<Rightarrow> length q)"

fun trim_from_rev :: "nat \<Rightarrow> string \<Rightarrow> string" where
  "trim_from_rev skip [] = []"
| "trim_from_rev (Suc k) (c # cs) = trim_from_rev k cs"
| "trim_from_rev 0 (c # cs) =
     (case space_width_rev (c # cs) of
        0 \<Rightarrow> c # cs
      | Suc k \<Rightarrow> trim_from_rev k cs)"

definition trim_right :: "string \<Rightarrow> string" where
  "trim_right s = rev (trim_from_rev 0 (rev s))"

definition strings_TrimSpace :: "string \<Rightarrow> string" where
  "strings_TrimSpace s = trim_right (trim_left s)"

text \<open>
  \<open>strings.ToUpper\<close> and \<open>strings.ToLower\<close> are applied by the program to one
  ASCII letter captured by a regular expression; on ASCII they move a letter by
  \<open>'a' - 'A'\<close> and leave every other byte alone.
\<close>

definition is_lower :: "char \<Rightarrow> bool" where
  "is_lower c = (97 \<le> (of_char c :: nat) \<and> (of_char c :: nat) \<le> 122)"

definition is_upper :: "char \<Rightarrow> bool" where
  "is_upper c = (65 \<le> (of_char c :: nat) \<and> (of_char c :: nat) \<le> 90)"

definition ToUpper :: "char \<Rightarrow> char" where
  "ToUpper c = (if is_lower c then char_of ((of_char c :: nat) - 32) else c)"

definition ToLower :: "char \<Rightarrow> char" where
  "ToLower c = (if is_upper c then char_of ((of_char c :: nat) + 32) else c)"


section \<open>Results, errors and the two listings\<close>

text \<open>
  \<open>wenv.go\<close> holds two listings of the launcher.  The first converts paths with the
  fixed pattern \<open>^(/mnt)?/([a-z])(/|$)\<close> and retries the final \<open>syscall.Exec\<close>;
  the second reads the mount root from \<open>/etc/wsl.conf\<close> into the global
  \<open>wslRoot\<close> and calls \<open>syscall.Exec\<close> once.  Functions of the first listing carry
  the suffix \<open>_mnt\<close>; those of the second keep the source's names.

  A Go function either returns or panics (an index or slice bound out of range); an
  \<open>error\<close> return value is the left summand of the returned value.
\<close>

datatype 'a result = Returns 'a | Panics

datatype error =
    CouldNotConvertPath   \<comment> \<open>\<open>errors.New("could not convert path")\<close>\<close>
  | EmptyVarName          \<comment> \<open>\<open>errors.New("empty var name in WENV")\<close>\<close>


section \<open>Path translator\<close>

text \<open>
  The regular expression \<open>"^" + root + "([a-z])(/|$)"\<close> on \<open>path\<close>: the captured
  drive letter, if the expression matches.  The root is matched byte for byte, which is
  what the expression does when the root holds no regular-expression metacharacter, as
  the default \<open>/mnt/\<close> and the first listing's \<open>/mnt/\<close> and \<open>/\<close>.
\<close>

definition drive_match :: "string \<Rightarrow> string \<Rightarrow> char option" where
  "drive_match root path =
     (if strings_HasPrefix path root then
        (case drop (length root) path of
           [] \<Rightarrow> None
         | c # rest \<Rightarrow>
             if is_lower c \<and> (case rest of [] \<Rightarrow> True | d # _ \<Rightarrow> d = slash)
             then Some c else None)
      else None)"

text \<open>
  The body of \<open>winpath\<close> once the root is known (second listing, lines 536 to 548):
  on a match the prefix \<open>root\<close> plus letter is replaced by the upper-case letter and a
  colon, then every slash becomes a backslash, and a result that starts with a backslash
  is an error.
\<close>

definition winpath_root :: "string \<Rightarrow> string \<Rightarrow> error + string" where
  "winpath_root root path =
     (let path1 = (case drive_match root path of
                     None \<Rightarrow> path
                   | Some c \<Rightarrow> [ToUpper c, CHR '':''] @ drop (length root + 1) path);
          path2 = strings_Replace path1 slash bslash
      in if strings_HasPrefix path2 [bslash] then Inl CouldNotConvertPath
         else Inr path2)"

text \<open>
  First listing: \<open>^(/mnt)?/([a-z])(/|$)\<close>.  The optional group is greedy, so the
  expression is tried with \<open>/mnt\<close> first and without it otherwise; the replacement
  pattern \<open>^(/mnt)?/[a-z]\<close> then matches the same prefix.
\<close>

definition winpath_mnt :: "string \<Rightarrow> error + string" where
  "winpath_mnt path =
     (let path1 = (case drive_match ''/mnt/'' path of
                     Some c \<Rightarrow> [ToUpper c, CHR '':''] @ drop 6 path
                   | None \<Rightarrow>
                       (case drive_match ''/'' path of
                          Some c \<Rightarrow> [ToUpper c, CHR '':''] @ drop 2 path
                        | None \<Rightarrow> path));
          path2 = strings_Replace path1 slash bslash
      in if strings_HasPrefix path2 [bslash] then Inl CouldNotConvertPath
         else Inr path2)"

text \<open>
  The body of \<open>wslpath\<close> once the root is known: every backslash becomes a slash, and
  a leading \<open>^([A-Za-z]):\<close> is replaced by the root and the lower-case letter.  (The
  replacement string is taken literally, which \<open>ReplaceAllString\<close> does when the
  root has no \<open>$\<close>.)
\<close>

definition wslpath_root :: "string \<Rightarrow> string \<Rightarrow> string" where
  "wslpath_root root path =
     (let path1 = strings_Replace path bslash slash
      in case path1 of
           c # d # rest \<Rightarrow>
             if (is_lower c \<or> is_upper c) \<and> d = CHR '':''
             then root @ [ToLower c] @ rest else path1
         | _ \<Rightarrow> path1)"

definition wslpath_mnt :: "string \<Rightarrow> string" where
  "wslpath_mnt path = wslpath_root ''/mnt/'' path"

text \<open>
  \<open>getWSLRoot\<close> (second listing).  The argument is the result of
  \<open>ioutil.ReadFile("/etc/wsl.conf")\<close>: \<open>None\<close> when the read fails.  The value
  returned is the new content of the global \<open>wslRoot\<close>.  \<open>s[0]\<close> panics on an
  empty value and \<open>s[1 : len(s)-1]\<close> panics on a value of one byte.
\<close>

fun scan_root :: "string list \<Rightarrow> string result" where
  "scan_root [] = Returns ''/mnt/''"
| "scan_root (s # ss) =
     (if \<not> strings_Contains s ''root'' then scan_root ss
      else (case strings_Split s (CHR ''='') of
              [k, v] \<Rightarrow>
                (case strings_TrimSpace v of
                   [] \<Rightarrow> Panics
                 | c # cs \<Rightarrow>
                     if c = CHR 0x22 then
                       (if cs = [] then Panics else Returns (butlast cs))
                     else Returns (c # cs))
            | _ \<Rightarrow> Returns ''/mnt/''))"

definition getWSLRoot :: "string option \<Rightarrow> string result" where
  "getWSLRoot conf =
     (case conf of
        None \<Rightarrow> Returns ''/mnt/''
      | Some b \<Rightarrow> scan_root (strings_Split b (CHR 0x0A)))"

text \<open>
  \<open>winpath\<close> and \<open>wslpath\<close> of the second listing, with the global made explicit:
  they take the configuration file and the current \<open>wslRoot\<close>, discover the root when
  it is empty (\<open>mount_root\<close>, the first three lines of both), and return the new
  \<open>wslRoot\<close> with their result.
\<close>

definition mount_root :: "string option \<Rightarrow> string \<Rightarrow> string result" where
  "mount_root conf wslRoot =
     (if wslRoot = [] then getWSLRoot conf else Returns wslRoot)"

definition winpath :: "string option \<Rightarrow> string \<Rightarrow> string \<Rightarrow> (string \<times> (error + string)) result" where
  "winpath conf wslRoot path =
     (case mount_root conf wslRoot of
        Panics \<Rightarrow> Panics
      | Returns root \<Rightarrow> Returns (root, winpath_root root path))"

definition wslpath :: "string option \<Rightarrow> string \<Rightarrow> string \<Rightarrow> (string \<times> string) result" where
  "wslpath conf wslRoot path =
     (case mount_root conf wslRoot of
        Panics \<Rightarrow> Panics
      | Returns root \<Rightarrow> Returns (root, wslpath_root root path))"

text \<open>
  The bytes with a meaning of their own in a Go regular expression or in a replacement
  string.  The second listing splices \<open>wslRoot\<close> into its patterns unescaped, so the
  byte-for-byte match above is the pattern exactly for roots of ASCII bytes without such
  bytes.
\<close>

definition regexp_meta :: string where
  "regexp_meta = [bslash] @ ''.+*?()|[]{}^$''"

definition regexp_literal :: "string \<Rightarrow> bool" where
  "regexp_literal root =
     list_all (\<lambda>c. (of_char c :: nat) < 128 \<and> c \<notin> set regexp_meta) root"

text \<open>
  Mount-root prefix normalisation: the first listing accepts a drive both as
  \<open>/mnt/c\<close> and as \<open>/c\<close>; the normal form of a path is the one with \<open>/mnt\<close>.
\<close>

definition norm_mnt :: "string \<Rightarrow> string" where
  "norm_mnt path =
     (case drive_match ''/'' path of
        Some c \<Rightarrow> ''/mnt'' @ path
      | None \<Rightarrow> path)"

text \<open>The pattern \<open>^([A-Za-z]):\<close> of \<open>wslpath\<close> as a predicate.\<close>

definition drive_letter :: "string \<Rightarrow> bool" where
  "drive_letter path =
     (case path of
        c # d # rest \<Rightarrow> (is_lower c \<or> is_upper c) \<and> d = CHR '':''
      | _ \<Rightarrow> False)"


section \<open>Policy resolver\<close>

datatype varopt = varIgnore | varPass | varConvert | varPath

text \<open>The table \<open>varopts\<close> of the first listing (lines 74 to 91).\<close>

definition varopts_mnt :: "string \<rightharpoonup> varopt" where
  "varopts_mnt =
     [''home'' \<mapsto> varIgnore, ''path'' \<mapsto> varIgnore, ''ifs'' \<mapsto> varIgnore,
      ''IFS'' \<mapsto> varIgnore, ''SHELL'' \<mapsto> varIgnore, ''prompt'' \<mapsto> varIgnore,
      ''EDITOR'' \<mapsto> varIgnore, ''PAGER'' \<mapsto> varIgnore, ''BROWSER'' \<mapsto> varIgnore,
      ''PWD'' \<mapsto> varConvert, ''HOME'' \<mapsto> varConvert, ''GOBIN'' \<mapsto> varConvert,
      ''GOPATH'' \<mapsto> varConvert,
      ''PATH'' \<mapsto> varPath]"

text \<open>The table \<open>varopts\<close> of the second listing (lines 356 to 372).\<close>

definition varopts :: "string \<rightharpoonup> varopt" where
  "varopts =
     [''home'' \<mapsto> varIgnore, ''path'' \<mapsto> varIgnore, ''ifs'' \<mapsto> varIgnore,
      ''IFS'' \<mapsto> varIgnore, ''SHELL'' \<mapsto> varIgnore, ''prompt'' \<mapsto> varIgnore,
      ''EDITOR'' \<mapsto> varIgnore, ''PAGER'' \<mapsto> varIgnore, ''BROWSER'' \<mapsto> varIgnore,
      ''HOME'' \<mapsto> varConvert, ''GOBIN'' \<mapsto> varConvert,
      ''PATH'' \<mapsto> varPath, ''GOPATH'' \<mapsto> varPath]"

text \<open>
  \<open>getvaropts\<close> is the same in both listings.  Its arguments are the value of
  \<open>os.Getenv("WENV")\<close> and the global table, which it updates in place; the table is
  returned, or the error.  \<open>getvaropts_entry\<close> is the body of the loop after the
  trimming: the \<open>switch\<close> on the first byte and the name left over.
\<close>

definition getvaropts_entry :: "char \<Rightarrow> string \<Rightarrow> varopt \<times> string" where
  "getvaropts_entry c cs =
     (if c = CHR ''!'' then (varIgnore, cs)
      else if c = CHR ''@'' then (varConvert, cs)
      else if c = CHR ''#'' then (varPath, cs)
      else if c = CHR ''$'' then (varPass, cs)
      else (varPass, c # cs))"

fun getvaropts_loop :: "string list \<Rightarrow> (string \<rightharpoonup> varopt) \<Rightarrow> error + (string \<rightharpoonup> varopt)" where
  "getvaropts_loop [] tbl = Inr tbl"
| "getvaropts_loop (e # es) tbl =
     (case strings_TrimSpace e of
        [] \<Rightarrow> getvaropts_loop es tbl
      | c # cs \<Rightarrow>
          (case getvaropts_entry c cs of
             (opt, name) \<Rightarrow>
               if name = [] then Inl EmptyVarName
               else getvaropts_loop es (tbl(name \<mapsto> opt))))"

definition getvaropts :: "string \<Rightarrow> (string \<rightharpoonup> varopt) \<Rightarrow> error + (string \<rightharpoonup> varopt)" where
  "getvaropts wenv tbl =
     (if wenv = [] then Inr tbl
      else getvaropts_loop (strings_Split wenv (CHR '','')) tbl)"


section \<open>Environment collector\<close>

text \<open>
  The Go map \<open>vars\<close> is an association list with one entry per key
  (\<open>AList.update\<close> overwrites in place), so that \<open>len(vars) == 0\<close> is a test for
  the empty list.
\<close>

type_synonym vars = "(string \<times> string) list"

text \<open>
  The first loop of \<open>wenv\<close> (lines 111 to 119), on \<open>os.Args\<close> without the program
  name: leading arguments with an \<open>=\<close> fill \<open>vars\<close>, the rest is the command.
\<close>

fun parse_vars :: "string list \<Rightarrow> vars \<Rightarrow> vars \<times> string list" where
  "parse_vars [] vars = (vars, [])"
| "parse_vars (a # as) vars =
     (case strings_SplitN2 a (CHR ''='') of
        [k, v] \<Rightarrow> parse_vars as (AList.update k v vars)
      | _ \<Rightarrow> (vars, a # as))"

text \<open>
  The loop over the segments of a path list (lines 143 to 149).  The conversion \<open>wp\<close>
  is \<open>winpath\<close> with the state it threads (the global \<open>wslRoot\<close> in the second
  listing, nothing in the first).
\<close>

fun convert_list ::
  "('s \<Rightarrow> string \<Rightarrow> ('s \<times> (error + string)) result) \<Rightarrow> 's \<Rightarrow> string list \<Rightarrow> string list
     \<Rightarrow> ('s \<times> string list) result" where
  "convert_list wp st [] p = Returns (st, p)"
| "convert_list wp st (e # es) p =
     (case wp st e of
        Panics \<Rightarrow> Panics
      | Returns (st', Inl err) \<Rightarrow> convert_list wp st' es p
      | Returns (st', Inr w) \<Rightarrow> convert_list wp st' es (p @ [w]))"

text \<open>
  One round of the loop over \<open>os.Environ()\<close> (lines 129 to 156).  An entry without
  \<open>=\<close> splits into one piece, and reading \<open>v[1]\<close> then panics; an ignored name
  is skipped before \<open>v[1]\<close> is read.
\<close>

definition collect_entry ::
  "('s \<Rightarrow> string \<Rightarrow> ('s \<times> (error + string)) result) \<Rightarrow> (string \<rightharpoonup> varopt) \<Rightarrow> 's \<Rightarrow> string \<Rightarrow> vars
     \<Rightarrow> ('s \<times> vars) result" where
  "collect_entry wp tbl st e vars =
     (case strings_SplitN2 e (CHR ''='') of
        [k, v] \<Rightarrow>
          (case tbl k of
             None \<Rightarrow> Returns (st, AList.update k v vars)
           | Some varIgnore \<Rightarrow> Returns (st, vars)
           | Some varPass \<Rightarrow> Returns (st, AList.update k v vars)
           | Some varConvert \<Rightarrow>
               (case wp st v of
                  Panics \<Rightarrow> Panics
                | Returns (st', Inl err) \<Rightarrow> Returns (st', vars)
                | Returns (st', Inr w) \<Rightarrow> Returns (st', AList.update k w vars))
           | Some varPath \<Rightarrow>
               (case convert_list wp st (strings_Split v (CHR '':'')) [] of
                  Panics \<Rightarrow> Panics
                | Returns (st', p) \<Rightarrow>
                    Returns (st', AList.update k (strings_Join p '';'') vars)))
      | [k] \<Rightarrow>
          (case tbl k of
             Some varIgnore \<Rightarrow> Returns (st, vars)
           | _ \<Rightarrow> Panics)
      | _ \<Rightarrow> Panics)"

fun collect_env ::
  "('s \<Rightarrow> string \<Rightarrow> ('s \<times> (error + string)) result) \<Rightarrow> (string \<rightharpoonup> varopt) \<Rightarrow> 's \<Rightarrow> string list \<Rightarrow> vars
     \<Rightarrow> ('s \<times> vars) result" where
  "collect_env wp tbl st [] vars = Returns (st, vars)"
| "collect_env wp tbl st (e # es) vars =
     (case collect_entry wp tbl st e vars of
        Panics \<Rightarrow> Panics
      | Returns (st', vars') \<Rightarrow> collect_env wp tbl st' es vars')"

text \<open>
  \<open>os.Getenv(key)\<close> on the environment \<open>os.Environ()\<close> returns: the value of the
  entry for \<open>key\<close>, the empty string when there is none.
\<close>

definition os_Getenv :: "string list \<Rightarrow> string \<Rightarrow> string" where
  "os_Getenv environ key =
     (case find (\<lambda>e. strings_HasPrefix e (key @ ''='')) environ of
        None \<Rightarrow> []
      | Some e \<Rightarrow> drop (length key + 1) e)"

text \<open>
  What the first part of \<open>wenv\<close> (lines 106 to 158) ends in: the process exits with a
  code (\<open>usage\<close> exits with 2, a bad \<open>WENV\<close> returns 1), it panics, or it goes on
  with the variables to transmit and the command line.
\<close>

datatype collected = Exit int | Panic | Collected vars "string list"

definition collect ::
  "('s \<Rightarrow> string \<Rightarrow> ('s \<times> (error + string)) result) \<Rightarrow> (string \<rightharpoonup> varopt) \<Rightarrow> 's \<Rightarrow> string list \<Rightarrow> string list
     \<Rightarrow> collected" where
  "collect wp tbl st args environ =
     (if args = [] then Exit 2
      else case parse_vars args [] of
        (vars, rest) \<Rightarrow>
          if rest = [] then Exit 2
          else if vars = [] then
            (case getvaropts (os_Getenv environ ''WENV'') tbl of
               Inl err \<Rightarrow> Exit 1
             | Inr tbl' \<Rightarrow>
                 (case collect_env wp tbl' st environ [] of
                    Panics \<Rightarrow> Panic
                  | Returns (st', vars') \<Rightarrow> Collected vars' rest))
          else Collected vars rest)"

text \<open>
  The two listings: \<open>args\<close> is \<open>os.Args[1:]\<close>, \<open>environ\<close> is \<open>os.Environ()\<close>;
  the second listing also depends on \<open>/etc/wsl.conf\<close> and starts with the global
  \<open>wslRoot\<close> empty.
\<close>

definition wenv_vars_mnt :: "string list \<Rightarrow> string list \<Rightarrow> collected" where
  "wenv_vars_mnt args environ =
     collect (\<lambda>st path. Returns (st, winpath_mnt path)) varopts_mnt () args environ"

definition wenv_vars :: "string option \<Rightarrow> string list \<Rightarrow> string list \<Rightarrow> collected" where
  "wenv_vars conf args environ =
     collect (winpath conf) varopts [] args environ"


section \<open>Boundary launcher: replacing the process image\<close>

text \<open>
  \<open>syscall.Exec\<close> returns only when it fails; the error is a \<open>syscall.Errno\<close> or
  some other error value.  The outcome of the call made when the loop counter is \<open>i\<close>
  is given by the environment, as a function of \<open>i\<close>.
\<close>

datatype exec_error = Errno nat | OtherError

datatype exec_result = ImageReplaced | ExecFails exec_error

definition ENOMEM :: nat where
  "ENOMEM = 12"

datatype launched = Replaced | Returned int

text \<open>
  First listing, lines 206 to 217.  The value is the loop counter when the loop is left
  (the number of retries made) and what became of the launcher.
\<close>

function exec_loop :: "(nat \<Rightarrow> exec_result) \<Rightarrow> nat \<Rightarrow> nat \<times> launched" where
  "exec_loop ex i =
     (case ex i of
        ImageReplaced \<Rightarrow> (i, Replaced)
      | ExecFails err \<Rightarrow>
          if err = Errno ENOMEM \<and> i < 10 then exec_loop ex (i + 1)
          else (i, Returned 1))"
  by pat_completeness auto
termination
  by (relation "measure (\<lambda>(ex, i). 10 - i)") auto

text \<open>Second listing, lines 487 to 490: one call, no loop.\<close>

definition exec_once :: "(nat \<Rightarrow> exec_result) \<Rightarrow> nat \<times> launched" where
  "exec_once ex =
     (case ex 0 of
        ImageReplaced \<Rightarrow> (0, Replaced)
      | ExecFails err \<Rightarrow> (0, Returned 1))"


section \<open>Boundary helper\<close>

text \<open>
  The end of the helper's \<open>main\<close> (lines 57 to 79).  \<open>args\<close> is \<open>os.Args\<close> at that
  point: the target path, then the target's argument vector.
\<close>

datatype stream = os_Stdin | os_Stdout | os_Stderr

record Cmd =
  Path :: string
  Args :: "string list"
  Stdin :: stream
  Stdout :: stream
  Stderr :: stream

datatype start_error = StartOk | StartFails

text \<open>
  What \<open>cmd.Wait()\<close> returns: \<open>nil\<close>, an \<open>*exec.ExitError\<close> (with the exit status
  of its \<open>syscall.WaitStatus\<close>, if \<open>Sys()\<close> is one, as it always is on Windows), or
  another error.
\<close>

datatype wait_error = WaitOk | ExitError "int option" | WaitFails

text \<open>
  The contract of \<open>os/exec\<close>: for a child that ran and exited with status \<open>n\<close>,
  \<open>Wait\<close> returns \<open>nil\<close> when \<open>n\<close> is 0 and an \<open>*exec.ExitError\<close> carrying
  \<open>n\<close> otherwise.
\<close>

definition cmd_Wait :: "int \<Rightarrow> wait_error" where
  "cmd_Wait n = (if n = 0 then WaitOk else ExitError (Some n))"

definition helper_cmd :: "string list \<Rightarrow> Cmd result" where
  "helper_cmd args =
     (case args of
        [] \<Rightarrow> Panics
      | path # rest \<Rightarrow>
          Returns \<lparr>Path = path, Args = rest,
                   Stdin = os_Stdin, Stdout = os_Stdout, Stderr = os_Stderr\<rparr>)"

text \<open>The exit code of the helper, given what \<open>Start\<close> and \<open>Wait\<close> return.\<close>

definition helper_run :: "(Cmd \<Rightarrow> start_error) \<Rightarrow> wait_error \<Rightarrow> string list \<Rightarrow> int result" where
  "helper_run start wait args =
     (case helper_cmd args of
        Panics \<Rightarrow> Panics
      | Returns cmd \<Rightarrow>
          (case start cmd of
             StartFails \<Rightarrow> Returns 126
           | StartOk \<Rightarrow>
               (case wait of
                  WaitOk \<Rightarrow> Returns 0
                | ExitError (Some status) \<Rightarrow> Returns status
                | ExitError None \<Rightarrow> Returns 0
                | WaitFails \<Rightarrow> Returns 126)))"


section \<open>Facts about bytes and strings\<close>

lemma ToUpper_of_char: "is_lower c \<Longrightarrow> (of_char (ToUpper c) :: nat) = of_char c - 32"
proof -
  assume "is_lower c"
  then have "(of_char c :: nat) - 32 < 256" unfolding is_lower_def by arith
  then show ?thesis using \<open>is_lower c\<close> by (simp add: ToUpper_def)
qed

lemma ToLower_of_char: "is_upper c \<Longrightarrow> (of_char (ToLower c) :: nat) = of_char c + 32"
proof -
  assume "is_upper c"
  then have "(of_char c :: nat) + 32 < 256" by (simp add: is_upper_def)
  then show ?thesis using \<open>is_upper c\<close> by (simp add: ToLower_def)
qed

lemma ToUpper_lower: "is_lower c \<Longrightarrow> is_upper (ToUpper c)"
  using ToUpper_of_char[of c] by (simp add: is_lower_def is_upper_def) arith

lemma ToLower_ToUpper: "is_lower c \<Longrightarrow> ToLower (ToUpper c) = c"
proof -
  assume l: "is_lower c"
  then have "(of_char (ToLower (ToUpper c)) :: nat) = of_char c"
    using ToLower_of_char[OF ToUpper_lower[OF l]] ToUpper_of_char[OF l]
    by (simp add: is_lower_def)
  then show ?thesis by simp
qed

lemma is_upper_not_bslash: "is_upper c \<Longrightarrow> c \<noteq> bslash"
  by (auto simp: is_upper_def bslash_def)

lemma is_lower_not_bslash: "is_lower c \<Longrightarrow> c \<noteq> bslash"
  by (auto simp: is_lower_def bslash_def)

lemma is_upper_not_slash: "is_upper c \<Longrightarrow> c \<noteq> slash"
  by (auto simp: is_upper_def slash_def)

lemma ToLower_is_lower: "is_lower c \<or> is_upper c \<Longrightarrow> is_lower (ToLower c)"
  using ToLower_of_char[of c] by (auto simp: is_lower_def is_upper_def ToLower_def)

lemma HasPrefix_append: "strings_HasPrefix s p \<longleftrightarrow> (\<exists>t. s = p @ t)"
  unfolding strings_HasPrefix_def
  by (metis append_eq_conv_conj)

lemma drive_match_Some:
  "drive_match root path = Some c \<longleftrightarrow>
     (\<exists>rest. path = root @ c # rest \<and> is_lower c \<and> (rest = [] \<or> hd rest = slash))"
  by (auto simp: drive_match_def HasPrefix_append split: list.splits)


lemma Replace_no_old: "old \<noteq> new \<Longrightarrow> old \<notin> set (strings_Replace s old new)"
  by (induction s) (auto simp: strings_Replace_def)

lemma Replace_id: "old \<notin> set s \<Longrightarrow> strings_Replace s old new = s"
  by (induction s) (auto simp: strings_Replace_def)

lemma Replace_back: "b \<notin> set s \<Longrightarrow> strings_Replace (strings_Replace s a b) b a = s"
  by (induction s) (auto simp: strings_Replace_def)

lemma Replace_Cons: "strings_Replace (c # s) old new = (if c = old then new else c) # strings_Replace s old new"
  by (simp add: strings_Replace_def)

lemma Replace_Nil: "strings_Replace [] old new = []"
  by (simp add: strings_Replace_def)

lemma slash_neq_bslash: "slash \<noteq> bslash"
  by (simp add: slash_def bslash_def)

lemma HasPrefix_single: "strings_HasPrefix s [c] \<longleftrightarrow> (s \<noteq> [] \<and> hd s = c)"
  by (cases s) (auto simp: strings_HasPrefix_def)

lemma winpath_root_match:
  assumes "drive_match root path = Some c"
  shows "winpath_root root path =
           Inr (ToUpper c # CHR '':'' # strings_Replace (drop (length root + 1) path) slash bslash)"
proof -
  from assms have l: "is_lower c" by (auto simp: drive_match_Some)
  have "ToUpper c \<noteq> slash" "ToUpper c \<noteq> bslash"
    using ToUpper_lower[OF l] is_upper_not_slash is_upper_not_bslash by auto
  moreover have "CHR '':'' \<noteq> slash" by (simp add: slash_def)
  ultimately show ?thesis using assms
    by (simp add: winpath_root_def Replace_Cons HasPrefix_single)
qed

lemma winpath_root_nomatch:
  assumes "drive_match root path = None"
  shows "winpath_root root path =
           (if strings_HasPrefix (strings_Replace path slash bslash) [bslash]
            then Inl CouldNotConvertPath
            else Inr (strings_Replace path slash bslash))"
  using assms by (simp add: winpath_root_def)

lemma Replace_hd_bslash:
  "strings_HasPrefix (strings_Replace path slash bslash) [bslash] \<longleftrightarrow>
     (path \<noteq> [] \<and> (hd path = slash \<or> hd path = bslash))"
  by (cases path) (auto simp: HasPrefix_single Replace_Cons Replace_Nil)

lemma winpath_Returns:
  "mount_root conf wslRoot = Returns root \<Longrightarrow>
     winpath conf wslRoot path = Returns (root, winpath_root root path)"
  by (simp add: winpath_def)

lemma wslpath_Returns:
  "mount_root conf wslRoot = Returns root \<Longrightarrow>
     wslpath conf wslRoot path = Returns (root, wslpath_root root path)"
  by (simp add: wslpath_def)

lemma mount_root_again:
  "mount_root conf wslRoot = Returns root \<Longrightarrow> mount_root conf root = Returns root"
  by (auto simp: mount_root_def split: if_splits)

lemma mount_root_absent: "mount_root None [] = Returns ''/mnt/''"
  by (simp add: mount_root_def getWSLRoot_def)

lemma Split_not_Nil: "strings_Split s sep \<noteq> []"
  by (induction s) (auto split: list.splits)

lemma Split_append:
  "strings_Split (a @ sep # b) sep = strings_Split a sep @ strings_Split b sep"
proof (induction a)
  case Nil
  show ?case by simp
next
  case (Cons c a)
  obtain w ws where "strings_Split a sep = w # ws"
    using Split_not_Nil[of a sep] by (cases "strings_Split a sep") auto
  with Cons show ?case by simp
qed

lemma Split_no_sep: "sep \<notin> set s \<Longrightarrow> strings_Split s sep = [s]"
  by (induction s) auto

lemma Split_two:
  "sep \<notin> set a \<Longrightarrow> sep \<notin> set b \<Longrightarrow> strings_Split (a @ sep # b) sep = [a, b]"
  by (simp add: Split_append Split_no_sep)

lemma length_Split: "length (strings_Split s sep) = Suc (count_list s sep)"
proof (induction s)
  case Nil
  show ?case by simp
next
  case (Cons c s)
  obtain w ws where "strings_Split s sep = w # ws"
    using Split_not_Nil[of s sep] by (cases "strings_Split s sep") auto
  with Cons show ?case by auto
qed

lemma SplitN2_sep:
  "sep \<notin> set k \<Longrightarrow> strings_SplitN2 (k @ sep # v) sep = [k, v]"
proof -
  assume n: "sep \<notin> set k"
  then have a: "\<forall>x\<in>set k. x \<noteq> sep" by auto
  have d: "dropWhile (\<lambda>c. c \<noteq> sep) (k @ sep # v) = sep # v"
    using a by (induction k) auto
  have t: "takeWhile (\<lambda>c. c \<noteq> sep) (k @ sep # v) = k"
    using a by (induction k) auto
  show ?thesis by (simp add: strings_SplitN2_def d t)
qed

lemma SplitN2_no_sep:
  "sep \<notin> set s \<Longrightarrow> strings_SplitN2 s sep = [s]"
proof -
  assume "sep \<notin> set s"
  then have d: "dropWhile (\<lambda>c. c \<noteq> sep) s = []" by (induction s) auto
  show ?thesis unfolding strings_SplitN2_def d by simp
qed



section \<open>The path translator\<close>

lemma drive_match_mnt_not_slash:
  "drive_match ''/mnt/'' v = Some c \<Longrightarrow> drive_match ''/'' v = None"
  by (cases "drive_match ''/'' v") (auto simp: drive_match_Some slash_def)

lemma winpath_mnt_long:
  "drive_match ''/mnt/'' path = Some c \<Longrightarrow> winpath_mnt path = winpath_root ''/mnt/'' path"
  by (simp add: winpath_mnt_def winpath_root_def eval_nat_numeral)

lemma winpath_mnt_short:
  "drive_match ''/mnt/'' path = None \<Longrightarrow> drive_match ''/'' path = Some c \<Longrightarrow>
     winpath_mnt path = winpath_root ''/'' path"
  by (simp add: winpath_mnt_def winpath_root_def eval_nat_numeral)

lemma winpath_mnt_nomatch:
  assumes "drive_match ''/mnt/'' path = None" "drive_match ''/'' path = None"
  shows "winpath_mnt path =
           (if strings_HasPrefix (strings_Replace path slash bslash) [bslash]
            then Inl CouldNotConvertPath
            else Inr (strings_Replace path slash bslash))"
  using assms by (simp add: winpath_mnt_def)

text \<open>
  C1, as amended.  In the second listing, with a mount root \<open>root\<close> free of
  regular-expression metacharacters in force, \<open>winpath\<close> rewrites a drive prefix exactly
  when the path is \<open>root\<close>, a letter \<open>a\<close> to \<open>z\<close>, and then a slash or the end: the
  prefix becomes the upper-case letter and a colon, and every slash of the rest a
  backslash.  In the first listing the same happens exactly when the path is \<open>/mnt/\<close> or
  \<open>/\<close>, a letter, and then a slash or the end.  In both, every other path only has its
  slashes replaced, and fails when the result begins with a backslash; \<open>/mnt/c/Users\<close>
  gives \<open>C:\<close>, a backslash and \<open>Users\<close>, and \<open>/not/mounted\<close> fails.
\<close>

theorem winpath_rewrites_drive_prefix:
  "(regexp_literal root \<and> mount_root conf wslRoot = Returns root \<longrightarrow>
      (\<forall>c rest. path = root @ c # rest \<and> is_lower c \<and> (rest = [] \<or> hd rest = slash) \<longrightarrow>
         winpath conf wslRoot path =
           Returns (root, Inr (ToUpper c # CHR '':'' # strings_Replace rest slash bslash))) \<and>
      ((\<nexists>c rest. path = root @ c # rest \<and> is_lower c \<and> (rest = [] \<or> hd rest = slash)) \<longrightarrow>
         winpath conf wslRoot path =
           Returns (root,
             if strings_HasPrefix (strings_Replace path slash bslash) [bslash]
             then Inl CouldNotConvertPath
             else Inr (strings_Replace path slash bslash)))) \<and>
   (\<forall>c rest. (path = ''/mnt/'' @ c # rest \<or> path = ''/'' @ c # rest) \<and> is_lower c \<and>
        (rest = [] \<or> hd rest = slash) \<longrightarrow>
      winpath_mnt path = Inr (ToUpper c # CHR '':'' # strings_Replace rest slash bslash)) \<and>
   ((\<nexists>c rest. (path = ''/mnt/'' @ c # rest \<or> path = ''/'' @ c # rest) \<and> is_lower c \<and>
        (rest = [] \<or> hd rest = slash)) \<longrightarrow>
      winpath_mnt path =
        (if strings_HasPrefix (strings_Replace path slash bslash) [bslash]
         then Inl CouldNotConvertPath
         else Inr (strings_Replace path slash bslash))) \<and>
   winpath None [] ''/mnt/c/Users'' = Returns (''/mnt/'', Inr (''C:'' @ [bslash] @ ''Users'')) \<and>
   winpath None [] ''/not/mounted'' = Returns (''/mnt/'', Inl CouldNotConvertPath) \<and>
   winpath_mnt ''/mnt/c/Users'' = Inr (''C:'' @ [bslash] @ ''Users'') \<and>
   winpath_mnt ''/not/mounted'' = Inl CouldNotConvertPath"
proof (intro conjI impI allI)
  fix c rest
  assume r: "regexp_literal root \<and> mount_root conf wslRoot = Returns root"
    and p: "path = root @ c # rest \<and> is_lower c \<and> (rest = [] \<or> hd rest = slash)"
  then have "drive_match root path = Some c" by (auto simp: drive_match_Some)
  from winpath_root_match[OF this] r p
  show "winpath conf wslRoot path =
           Returns (root, Inr (ToUpper c # CHR '':'' # strings_Replace rest slash bslash))"
    by (simp add: winpath_Returns)
next
  assume r: "regexp_literal root \<and> mount_root conf wslRoot = Returns root"
    and n: "\<nexists>c rest. path = root @ c # rest \<and> is_lower c \<and> (rest = [] \<or> hd rest = slash)"
  have "drive_match root path = None"
  proof (cases "drive_match root path")
    case (Some c)
    with n show ?thesis by (auto simp: drive_match_Some)
  qed simp
  from winpath_root_nomatch[OF this] r
  show "winpath conf wslRoot path =
           Returns (root,
             if strings_HasPrefix (strings_Replace path slash bslash) [bslash]
             then Inl CouldNotConvertPath
             else Inr (strings_Replace path slash bslash))"
    by (simp add: winpath_Returns)
next
  fix c rest
  assume p: "(path = ''/mnt/'' @ c # rest \<or> path = ''/'' @ c # rest) \<and> is_lower c \<and>
        (rest = [] \<or> hd rest = slash)"
  show "winpath_mnt path = Inr (ToUpper c # CHR '':'' # strings_Replace rest slash bslash)"
  proof (cases "path = ''/mnt/'' @ c # rest")
    case True
    with p have m: "drive_match ''/mnt/'' path = Some c" unfolding drive_match_Some by blast
    from winpath_root_match[OF m] winpath_mnt_long[OF m] True show ?thesis by simp
  next
    case False
    with p have q: "path = ''/'' @ c # rest" by blast
    with p have m: "drive_match ''/'' path = Some c" unfolding drive_match_Some by blast
    have n: "drive_match ''/mnt/'' path = None"
    proof (cases "drive_match ''/mnt/'' path")
      case (Some d)
      from drive_match_mnt_not_slash[OF Some] m show ?thesis by simp
    qed simp
    from winpath_root_match[OF m] winpath_mnt_short[OF n m] q show ?thesis by simp
  qed
next
  assume n: "\<nexists>c rest. (path = ''/mnt/'' @ c # rest \<or> path = ''/'' @ c # rest) \<and> is_lower c \<and>
        (rest = [] \<or> hd rest = slash)"
  have a: "drive_match ''/mnt/'' path = None"
  proof (cases "drive_match ''/mnt/'' path")
    case (Some c)
    with n show ?thesis unfolding drive_match_Some by blast
  qed simp
  have b: "drive_match ''/'' path = None"
  proof (cases "drive_match ''/'' path")
    case (Some c)
    with n show ?thesis unfolding drive_match_Some by blast
  qed simp
  from winpath_mnt_nomatch[OF a b]
  show "winpath_mnt path =
        (if strings_HasPrefix (strings_Replace path slash bslash) [bslash]
         then Inl CouldNotConvertPath
         else Inr (strings_Replace path slash bslash))" .
next
  show "winpath None [] ''/mnt/c/Users'' = Returns (''/mnt/'', Inr (''C:'' @ [bslash] @ ''Users''))"
    by code_simp
next
  show "winpath None [] ''/not/mounted'' = Returns (''/mnt/'', Inl CouldNotConvertPath)"
    by code_simp
next
  show "winpath_mnt ''/mnt/c/Users'' = Inr (''C:'' @ [bslash] @ ''Users'')"
    by code_simp
next
  show "winpath_mnt ''/not/mounted'' = Inl CouldNotConvertPath"
    by code_simp
qed

theorem winpath_rewrites_drive_prefix_witness:
  "regexp_literal ''/mnt/'' \<and> mount_root None [] = Returns ''/mnt/'' \<and>
   is_lower (CHR ''d'') \<and> hd ''/b'' = slash \<and>
   winpath None [] (''/mnt/'' @ CHR ''d'' # ''/b'') = Returns (''/mnt/'', Inr (''D:'' @ [bslash] @ ''b'')) \<and>
   winpath_mnt (''/'' @ CHR ''d'' # ''/b'') = Inr (''D:'' @ [bslash] @ ''b'') \<and>
   (\<nexists>c rest. ''usr/lib'' = ''/mnt/'' @ c # rest \<and> is_lower c \<and> (rest = [] \<or> hd rest = slash)) \<and>
   winpath None [] ''usr/lib'' = Returns (''/mnt/'', Inr (''usr'' @ [bslash] @ ''lib'')) \<and>
   (\<nexists>c rest. (''usr/lib'' = ''/mnt/'' @ c # rest \<or> ''usr/lib'' = ''/'' @ c # rest) \<and> is_lower c \<and>
        (rest = [] \<or> hd rest = slash)) \<and>
   winpath_mnt ''usr/lib'' = Inr (''usr'' @ [bslash] @ ''lib'')"
proof -
  have h1: "regexp_literal ''/mnt/''" by code_simp
  have h2: "mount_root None [] = Returns ''/mnt/''" by (rule mount_root_absent)
  have h3: "is_lower (CHR ''d'')" "hd ''/b'' = slash"
    by (simp_all add: is_lower_def slash_def)
  have h4: "\<nexists>c rest. ''usr/lib'' = ''/mnt/'' @ c # rest \<and> is_lower c \<and> (rest = [] \<or> hd rest = slash)"
    by simp
  have h5: "\<nexists>c rest. (''usr/lib'' = ''/mnt/'' @ c # rest \<or> ''usr/lib'' = ''/'' @ c # rest) \<and> is_lower c \<and>
        (rest = [] \<or> hd rest = slash)"
    by simp
  have u: "ToUpper (CHR ''d'') = CHR ''D''" by code_simp
  have r1: "strings_Replace ''/b'' slash bslash = [bslash] @ ''b''" by code_simp
  have r2: "strings_Replace ''usr/lib'' slash bslash = ''usr'' @ [bslash] @ ''lib''" by code_simp
  have np: "\<not> strings_HasPrefix (''usr'' @ [bslash] @ ''lib'') [bslash]" by code_simp
  note T1 = winpath_rewrites_drive_prefix[of "''/mnt/''" None "[]" "''/mnt/'' @ CHR ''d'' # ''/b''"]
  from T1 h1 h2 have "\<forall>c rest. ''/mnt/'' @ CHR ''d'' # ''/b'' = ''/mnt/'' @ c # rest \<and> is_lower c \<and> (rest = [] \<or> hd rest = slash) \<longrightarrow>
         winpath None [] (''/mnt/'' @ CHR ''d'' # ''/b'') =
           Returns (''/mnt/'', Inr (ToUpper c # CHR '':'' # strings_Replace rest slash bslash))"
    by blast
  from this[rule_format, of "CHR ''d''" "''/b''"] h3
  have a: "winpath None [] (''/mnt/'' @ CHR ''d'' # ''/b'') = Returns (''/mnt/'', Inr (''D:'' @ [bslash] @ ''b''))"
    unfolding u r1 by simp
  note T3 = winpath_rewrites_drive_prefix[of "''/mnt/''" None "[]" "''/'' @ CHR ''d'' # ''/b''"]
  from T3 have "\<forall>c rest. (''/'' @ CHR ''d'' # ''/b'' = ''/mnt/'' @ c # rest \<or>
        ''/'' @ CHR ''d'' # ''/b'' = ''/'' @ c # rest) \<and> is_lower c \<and> (rest = [] \<or> hd rest = slash) \<longrightarrow>
      winpath_mnt (''/'' @ CHR ''d'' # ''/b'') = Inr (ToUpper c # CHR '':'' # strings_Replace rest slash bslash)"
    by blast
  from this[rule_format, of "CHR ''d''" "''/b''"] h3
  have c: "winpath_mnt (''/'' @ CHR ''d'' # ''/b'') = Inr (''D:'' @ [bslash] @ ''b'')"
    unfolding u r1 by simp
  note T2 = winpath_rewrites_drive_prefix[of "''/mnt/''" None "[]" "''usr/lib''"]
  from T2 h1 h2 h4
  have "winpath None [] ''usr/lib'' =
           Returns (''/mnt/'',
             if strings_HasPrefix (strings_Replace ''usr/lib'' slash bslash) [bslash]
             then Inl CouldNotConvertPath
             else Inr (strings_Replace ''usr/lib'' slash bslash))"
    by blast
  then have b: "winpath None [] ''usr/lib'' = Returns (''/mnt/'', Inr (''usr'' @ [bslash] @ ''lib''))"
    unfolding r2 using np by simp
  from T2 h5
  have "winpath_mnt ''usr/lib'' =
        (if strings_HasPrefix (strings_Replace ''usr/lib'' slash bslash) [bslash]
         then Inl CouldNotConvertPath
         else Inr (strings_Replace ''usr/lib'' slash bslash))"
    by blast
  then have d: "winpath_mnt ''usr/lib'' = Inr (''usr'' @ [bslash] @ ''lib'')"
    unfolding r2 using np by simp
  from h1 h2 h3 h4 h5 a b c d show ?thesis by blast
qed

theorem winpath_mnt_short_prefix_counterexample:
  "\<not> strings_HasPrefix ''/c/Users'' ''/mnt/'' \<and>
   drive_match ''/mnt/'' ''/c/Users'' = None \<and>
   winpath_mnt ''/c/Users'' = Inr (''C:'' @ [bslash] @ ''Users'')"
  by code_simp


lemma drive_match_slash_root:
  "drive_match (slash # r) path = Some c \<Longrightarrow> path \<noteq> [] \<and> hd path = slash"
  by (auto simp: drive_match_Some)

lemma winpath_mnt_relative:
  assumes "path = [] \<or> (hd path \<noteq> slash \<and> hd path \<noteq> bslash)"
  shows "winpath_mnt path = Inr (strings_Replace path slash bslash)"
proof -
  have a: "drive_match ''/mnt/'' path = None"
    using assms drive_match_slash_root[of "''mnt/''" path] 
    by (cases "drive_match ''/mnt/'' path") (auto simp: slash_def)
  have b: "drive_match ''/'' path = None"
    using assms drive_match_slash_root[of "[]" path] 
    by (cases "drive_match ''/'' path") (auto simp: slash_def)
  show ?thesis using a b assms by (auto simp: winpath_mnt_def Replace_hd_bslash)
qed

lemma winpath_root_relative:
  assumes "path = [] \<or> (hd path \<noteq> slash \<and> hd path \<noteq> bslash)"
  shows "winpath_root ''/mnt/'' path = Inr (strings_Replace path slash bslash)"
proof -
  have a: "drive_match ''/mnt/'' path = None"
    using assms drive_match_slash_root[of "''mnt/''" path] 
    by (cases "drive_match ''/mnt/'' path") (auto simp: slash_def)
  show ?thesis using winpath_root_nomatch[OF a] assms by (auto simp: Replace_hd_bslash)
qed

text \<open>
  C9, as amended.  Under the default mount root, for every input that is empty or begins
  with neither a slash nor a backslash, \<open>winpath\<close> succeeds in both listings and returns
  the input with every slash replaced by a backslash: no drive prefix is introduced.  An
  input that begins with a backslash is rejected, as the evaluation after the witness shows.
\<close>

theorem winpath_relative_path:
  "(path = [] \<or> (hd path \<noteq> slash \<and> hd path \<noteq> bslash)) \<longrightarrow>
     winpath_mnt path = Inr (strings_Replace path slash bslash) \<and>
     (mount_root conf wslRoot = Returns ''/mnt/'' \<longrightarrow>
        winpath conf wslRoot path = Returns (''/mnt/'', Inr (strings_Replace path slash bslash)))"
  using winpath_mnt_relative[of path] winpath_root_relative[of path]
  by (simp add: winpath_Returns)

theorem winpath_relative_path_witness:
  "hd ''usr/lib'' \<noteq> slash \<and> hd ''usr/lib'' \<noteq> bslash \<and> mount_root None [] = Returns ''/mnt/'' \<and>
   winpath_mnt ''usr/lib'' = Inr (''usr'' @ [bslash] @ ''lib'') \<and>
   winpath None [] ''usr/lib'' = Returns (''/mnt/'', Inr (''usr'' @ [bslash] @ ''lib'')) \<and>
   winpath_mnt [] = Inr [] \<and> winpath None [] [] = Returns (''/mnt/'', Inr [])"
proof -
  have h: "hd ''usr/lib'' \<noteq> slash" "hd ''usr/lib'' \<noteq> bslash"
    by (simp_all add: slash_def bslash_def)
  have r: "strings_Replace ''usr/lib'' slash bslash = ''usr'' @ [bslash] @ ''lib''" by code_simp
  have e: "strings_Replace [] slash bslash = []" by code_simp
  from winpath_relative_path[of "''usr/lib''" None "[]"] h mount_root_absent
  have a: "winpath_mnt ''usr/lib'' = Inr (''usr'' @ [bslash] @ ''lib'') \<and>
           winpath None [] ''usr/lib'' = Returns (''/mnt/'', Inr (''usr'' @ [bslash] @ ''lib''))"
    unfolding r by blast
  from winpath_relative_path[of "[]" None "[]"] mount_root_absent
  have b: "winpath_mnt [] = Inr [] \<and> winpath None [] [] = Returns (''/mnt/'', Inr [])"
    unfolding e by blast
  from h mount_root_absent a b show ?thesis by blast
qed

theorem winpath_leading_backslash_fails:
  "hd [bslash, CHR ''x''] \<noteq> slash \<and>
   winpath None [] [bslash, CHR ''x''] = Returns (''/mnt/'', Inl CouldNotConvertPath) \<and>
   winpath_mnt [bslash, CHR ''x''] = Inl CouldNotConvertPath"
  by code_simp


lemma wslpath_root_idem: "wslpath_root ''/mnt/'' (wslpath_root ''/mnt/'' p) = wslpath_root ''/mnt/'' p"
proof -
  define p1 where "p1 = strings_Replace p bslash slash"
  have nb: "bslash \<notin> set p1" unfolding p1_def using Replace_no_old[of bslash slash p] slash_neq_bslash by auto
  have id: "strings_Replace p1 bslash slash = p1" using nb by (rule Replace_id)
  show ?thesis
  proof (cases "\<exists>c rest. p1 = c # CHR '':'' # rest \<and> (is_lower c \<or> is_upper c)")
    case True
    then obtain c rest where p1: "p1 = c # CHR '':'' # rest" and a: "is_lower c \<or> is_upper c" by blast
    have r: "wslpath_root ''/mnt/'' p = ''/mnt/'' @ [ToLower c] @ rest"
      using p1 a unfolding wslpath_root_def p1_def[symmetric] by simp
    have nb2: "bslash \<notin> set (''/mnt/'' @ [ToLower c] @ rest)"
      using nb p1 is_lower_not_bslash[OF ToLower_is_lower[OF a]] by (auto simp: bslash_def)
    have "wslpath_root ''/mnt/'' (''/mnt/'' @ [ToLower c] @ rest) = ''/mnt/'' @ [ToLower c] @ rest"
      unfolding wslpath_root_def Replace_id[OF nb2] by (simp add: is_lower_def is_upper_def)
    with r show ?thesis by simp
  next
    case False
    then have r: "wslpath_root ''/mnt/'' p = p1"
      unfolding wslpath_root_def p1_def[symmetric] by (auto split: list.splits)
    have "wslpath_root ''/mnt/'' p1 = p1"
      using False unfolding wslpath_root_def id by (auto split: list.splits)
    with r show ?thesis by simp
  qed
qed

text \<open>
  C10.  Under the default mount root \<open>wslpath\<close> always returns, and applying it to its
  own result changes nothing, in both listings.
\<close>

theorem wslpath_idempotent:
  "wslpath_mnt (wslpath_mnt p) = wslpath_mnt p \<and>
   (mount_root conf wslRoot = Returns ''/mnt/'' \<longrightarrow>
      (\<exists>q. wslpath conf wslRoot p = Returns (''/mnt/'', q) \<and>
           wslpath conf ''/mnt/'' q = Returns (''/mnt/'', q)))"
proof (intro conjI impI)
  show "wslpath_mnt (wslpath_mnt p) = wslpath_mnt p"
    by (simp add: wslpath_mnt_def wslpath_root_idem)
next
  assume m: "mount_root conf wslRoot = Returns ''/mnt/''"
  have "wslpath conf ''/mnt/'' (wslpath_root ''/mnt/'' p) = Returns (''/mnt/'', wslpath_root ''/mnt/'' p)"
    using wslpath_Returns[OF mount_root_again[OF m]] by (simp add: wslpath_root_idem)
  with wslpath_Returns[OF m, of p]
  show "\<exists>q. wslpath conf wslRoot p = Returns (''/mnt/'', q) \<and>
           wslpath conf ''/mnt/'' q = Returns (''/mnt/'', q)" by blast
qed

theorem wslpath_idempotent_witness:
  "mount_root None [] = Returns ''/mnt/'' \<and>
   (\<exists>q. wslpath None [] (''D:'' @ [bslash] @ ''foo'') = Returns (''/mnt/'', q) \<and>
        wslpath None ''/mnt/'' q = Returns (''/mnt/'', q)) \<and>
   wslpath None [] (''D:'' @ [bslash] @ ''foo'') = Returns (''/mnt/'', ''/mnt/d/foo'')"
proof -
  have e: "wslpath None [] (''D:'' @ [bslash] @ ''foo'') = Returns (''/mnt/'', ''/mnt/d/foo'')"
    by code_simp
  from wslpath_idempotent[of "''D:'' @ [bslash] @ ''foo''" None "[]"] mount_root_absent e
  show ?thesis by blast
qed


lemma wslpath_root_drive:
  assumes "bslash \<notin> set rest" "is_lower c \<or> is_upper c"
  shows "wslpath_root root (c # CHR '':'' # strings_Replace rest slash bslash) = root @ ToLower c # rest"
proof -
  have c: "c \<noteq> bslash" using assms(2) is_lower_not_bslash is_upper_not_bslash by blast
  have "CHR '':'' \<noteq> bslash" by (simp add: bslash_def)
  then show ?thesis using assms c
    by (simp add: wslpath_root_def Replace_Cons Replace_back)
qed

lemma wslpath_root_plain:
  assumes "bslash \<notin> set v" "\<not> drive_letter v"
  shows "wslpath_root root (strings_Replace v slash bslash) = v"
  using assms unfolding wslpath_root_def Replace_back[OF assms(1)] drive_letter_def
  by (auto split: list.splits)

lemma roundtrip_root:
  assumes nb: "bslash \<notin> set v" and nd: "\<not> drive_letter v"
    and w: "winpath_root root v = Inr w"
  shows "wslpath_root root w = v"
proof (cases "drive_match root v")
  case None
  from winpath_root_nomatch[OF None] w have "w = strings_Replace v slash bslash"
    by (simp split: if_splits)
  then show ?thesis using wslpath_root_plain[OF nb nd] by simp
next
  case (Some c)
  then obtain rest where v: "v = root @ c # rest" and l: "is_lower c"
    by (auto simp: drive_match_Some)
  from winpath_root_match[OF Some] w v
  have w': "w = ToUpper c # CHR '':'' # strings_Replace rest slash bslash" by simp
  have "bslash \<notin> set rest" using nb v by simp
  from wslpath_root_drive[OF this, of "ToUpper c" root] ToUpper_lower[OF l] ToLower_ToUpper[OF l]
  show ?thesis unfolding w' v by simp
qed

lemma roundtrip_mnt:
  assumes nb: "bslash \<notin> set v" and nd: "\<not> drive_letter v"
    and w: "winpath_mnt v = Inr w"
  shows "wslpath_mnt w = norm_mnt v"
proof (cases "drive_match ''/mnt/'' v")
  case (Some c)
  then have "winpath_mnt v = winpath_root ''/mnt/'' v"
    by (simp add: winpath_mnt_def winpath_root_def eval_nat_numeral)
  with roundtrip_root[OF nb nd, of "''/mnt/''" w] w drive_match_mnt_not_slash[OF Some]
  show ?thesis by (simp add: wslpath_mnt_def norm_mnt_def)
next
  case None
  show ?thesis
  proof (cases "drive_match ''/'' v")
    case n: None
    with None have "winpath_mnt v = winpath_root ''/mnt/'' v"
      by (simp add: winpath_mnt_def winpath_root_def)
    with roundtrip_root[OF nb nd, of "''/mnt/''" w] w n
    show ?thesis by (simp add: wslpath_mnt_def norm_mnt_def)
  next
    case (Some c)
    then obtain rest where v: "v = ''/'' @ c # rest" and l: "is_lower c"
      by (auto simp: drive_match_Some)
    have "winpath_mnt v = winpath_root ''/'' v" using None Some
      by (simp add: winpath_mnt_def winpath_root_def eval_nat_numeral)
    with winpath_root_match[OF Some] w v
    have w': "w = ToUpper c # CHR '':'' # strings_Replace rest slash bslash" by simp
    have "bslash \<notin> set rest" using nb v by simp
    from wslpath_root_drive[OF this, of "ToUpper c" "''/mnt/''"] ToUpper_lower[OF l] ToLower_ToUpper[OF l]
    show ?thesis unfolding w' using Some v by (simp add: wslpath_mnt_def norm_mnt_def)
  qed
qed

text \<open>
  C3, as amended.  For every \<open>v\<close> that holds no backslash and does not begin with a
  letter and a colon, if \<open>winpath\<close> succeeds on \<open>v\<close> then \<open>wslpath\<close> of the
  result is \<open>v\<close> with its mount prefix normalised: in the first listing \<open>v\<close>
  itself, except that a leading \<open>/c\<close> comes back as \<open>/mnt/c\<close>; in the second
  listing \<open>v\<close> itself, whatever root without regular-expression metacharacters is in
  force.
\<close>

theorem winpath_wslpath_round_trip:
  "bslash \<notin> set v \<and> \<not> drive_letter v \<longrightarrow>
     (winpath_mnt v = Inr w \<longrightarrow> wslpath_mnt w = norm_mnt v) \<and>
     (regexp_literal root \<and> winpath conf wslRoot v = Returns (root, Inr w) \<longrightarrow>
        wslpath conf root w = Returns (root, v))"
proof (intro impI conjI)
  assume h: "bslash \<notin> set v \<and> \<not> drive_letter v"
  { assume "winpath_mnt v = Inr w"
    with h show "wslpath_mnt w = norm_mnt v" by (simp add: roundtrip_mnt) }
  { assume "regexp_literal root \<and> winpath conf wslRoot v = Returns (root, Inr w)"
    then have a: "winpath conf wslRoot v = Returns (root, Inr w)" by simp
    then have m: "mount_root conf wslRoot = Returns root" and b: "winpath_root root v = Inr w"
      by (auto simp: winpath_def split: result.splits)
    from wslpath_Returns[OF mount_root_again[OF m], of w] roundtrip_root[OF _ _ b] h
    show "wslpath conf root w = Returns (root, v)" by simp }
qed

theorem winpath_wslpath_round_trip_witness:
  "bslash \<notin> set ''/c/Users'' \<and> \<not> drive_letter ''/c/Users'' \<and>
   winpath_mnt ''/c/Users'' = Inr (''C:'' @ [bslash] @ ''Users'') \<and>
   wslpath_mnt (''C:'' @ [bslash] @ ''Users'') = norm_mnt ''/c/Users'' \<and>
   norm_mnt ''/c/Users'' = ''/mnt/c/Users'' \<and>
   bslash \<notin> set ''/mnt/c/Users'' \<and> \<not> drive_letter ''/mnt/c/Users'' \<and>
   regexp_literal ''/mnt/'' \<and>
   winpath None [] ''/mnt/c/Users'' = Returns (''/mnt/'', Inr (''C:'' @ [bslash] @ ''Users'')) \<and>
   wslpath None ''/mnt/'' (''C:'' @ [bslash] @ ''Users'') = Returns (''/mnt/'', ''/mnt/c/Users'')"
proof -
  have h1: "bslash \<notin> set ''/c/Users'' \<and> \<not> drive_letter ''/c/Users''" by code_simp
  have h2: "bslash \<notin> set ''/mnt/c/Users'' \<and> \<not> drive_letter ''/mnt/c/Users''" by code_simp
  have e1: "winpath_mnt ''/c/Users'' = Inr (''C:'' @ [bslash] @ ''Users'')" by code_simp
  have e2: "winpath None [] ''/mnt/c/Users'' = Returns (''/mnt/'', Inr (''C:'' @ [bslash] @ ''Users''))"
    by code_simp
  have n: "norm_mnt ''/c/Users'' = ''/mnt/c/Users''" by code_simp
  have l: "regexp_literal ''/mnt/''" by code_simp
  from winpath_wslpath_round_trip[of "''/c/Users''" "''C:'' @ [bslash] @ ''Users''"] h1 e1
  have a: "wslpath_mnt (''C:'' @ [bslash] @ ''Users'') = norm_mnt ''/c/Users''" by blast
  from winpath_wslpath_round_trip[where v="''/mnt/c/Users''" and conf=None and wslRoot="[]"
      and root="''/mnt/''" and w="''C:'' @ [bslash] @ ''Users''"] h2 e2 l
  have b: "wslpath None ''/mnt/'' (''C:'' @ [bslash] @ ''Users'') = Returns (''/mnt/'', ''/mnt/c/Users'')"
    by blast
  from h1 h2 e1 e2 n l a b show ?thesis by blast
qed

theorem round_trip_backslash_counterexample:
  "winpath_mnt (''a'' @ [bslash] @ ''b'') = Inr (''a'' @ [bslash] @ ''b'') \<and>
   wslpath_mnt (''a'' @ [bslash] @ ''b'') = ''a/b'' \<and>
   norm_mnt ''a/b'' \<noteq> norm_mnt (''a'' @ [bslash] @ ''b'') \<and>
   winpath None [] (''a'' @ [bslash] @ ''b'') = Returns (''/mnt/'', Inr (''a'' @ [bslash] @ ''b'')) \<and>
   wslpath None ''/mnt/'' (''a'' @ [bslash] @ ''b'') = Returns (''/mnt/'', ''a/b'')"
  by code_simp


section \<open>Mount-root discovery\<close>

lemma scan_root_find:
  "scan_root ls =
     (case find (\<lambda>s. strings_Contains s ''root'') ls of
        None \<Rightarrow> Returns ''/mnt/''
      | Some s \<Rightarrow>
          (case strings_Split s (CHR ''='') of
              [k, v] \<Rightarrow>
                (case strings_TrimSpace v of
                   [] \<Rightarrow> Panics
                 | c # cs \<Rightarrow>
                     if c = CHR 0x22 then
                       (if cs = [] then Panics else Returns (butlast cs))
                     else Returns (c # cs))
            | _ \<Rightarrow> Returns ''/mnt/''))"
  by (induction ls) simp_all

lemma Split_length_not_2:
  "count_list s sep \<noteq> 1 \<Longrightarrow> (case strings_Split s sep of [k, v] \<Rightarrow> f k v | _ \<Rightarrow> d) = d"
  using length_Split[of s sep] by (auto split: list.splits)

text \<open>
  C5, as amended.  Discovery reads the configuration file and takes the first line that
  contains \<open>root\<close> anywhere.  When that line has exactly one \<open>=\<close> and the text after
  it, trimmed of white space, is not empty, the root is the trimmed text, or, when the
  trimmed text begins with a double quote and is longer than one byte, the trimmed text
  without its first and last byte.  An absent file, a file with no such line, and a first
  such line that does not have exactly one \<open>=\<close> all give \<open>/mnt/\<close>.
\<close>

theorem getWSLRoot_discovery:
  "getWSLRoot None = Returns ''/mnt/'' \<and>
   (find (\<lambda>s. strings_Contains s ''root'') (strings_Split b (CHR 0x0A)) = None \<longrightarrow>
      getWSLRoot (Some b) = Returns ''/mnt/'') \<and>
   (find (\<lambda>s. strings_Contains s ''root'') (strings_Split b (CHR 0x0A)) = Some s \<and>
    count_list s (CHR ''='') \<noteq> 1 \<longrightarrow>
      getWSLRoot (Some b) = Returns ''/mnt/'') \<and>
   (find (\<lambda>s. strings_Contains s ''root'') (strings_Split b (CHR 0x0A)) = Some (k @ CHR ''='' # v) \<and>
    CHR ''='' \<notin> set k \<and> CHR ''='' \<notin> set v \<and>
    strings_TrimSpace v = c # t \<and> c \<noteq> CHR 0x22 \<longrightarrow>
      getWSLRoot (Some b) = Returns (c # t)) \<and>
   (find (\<lambda>s. strings_Contains s ''root'') (strings_Split b (CHR 0x0A)) = Some (k @ CHR ''='' # v) \<and>
    CHR ''='' \<notin> set k \<and> CHR ''='' \<notin> set v \<and>
    strings_TrimSpace v = CHR 0x22 # t \<and> t \<noteq> [] \<longrightarrow>
      getWSLRoot (Some b) = Returns (butlast t))"
proof (intro conjI impI)
  show "getWSLRoot None = Returns ''/mnt/''" by (simp add: getWSLRoot_def)
next
  assume "find (\<lambda>s. strings_Contains s ''root'') (strings_Split b (CHR 0x0A)) = None"
  then show "getWSLRoot (Some b) = Returns ''/mnt/''"
    by (simp add: getWSLRoot_def scan_root_find)
next
  assume "find (\<lambda>s. strings_Contains s ''root'') (strings_Split b (CHR 0x0A)) = Some s \<and>
    count_list s (CHR ''='') \<noteq> 1"
  then show "getWSLRoot (Some b) = Returns ''/mnt/''"
    by (simp add: getWSLRoot_def scan_root_find Split_length_not_2)
next
  assume "find (\<lambda>s. strings_Contains s ''root'') (strings_Split b (CHR 0x0A)) = Some (k @ CHR ''='' # v) \<and>
    CHR ''='' \<notin> set k \<and> CHR ''='' \<notin> set v \<and>
    strings_TrimSpace v = c # t \<and> c \<noteq> CHR 0x22"
  then show "getWSLRoot (Some b) = Returns (c # t)"
    by (simp add: getWSLRoot_def scan_root_find Split_two)
next
  assume "find (\<lambda>s. strings_Contains s ''root'') (strings_Split b (CHR 0x0A)) = Some (k @ CHR ''='' # v) \<and>
    CHR ''='' \<notin> set k \<and> CHR ''='' \<notin> set v \<and>
    strings_TrimSpace v = CHR 0x22 # t \<and> t \<noteq> []"
  then show "getWSLRoot (Some b) = Returns (butlast t)"
    by (simp add: getWSLRoot_def scan_root_find Split_two)
qed


theorem getWSLRoot_discovery_witness:
  "find (\<lambda>s. strings_Contains s ''root'') (strings_Split ''[automount]'' (CHR 0x0A)) = None \<and>
   getWSLRoot (Some ''[automount]'') = Returns ''/mnt/'' \<and>
   find (\<lambda>s. strings_Contains s ''root'') (strings_Split ''# no root here'' (CHR 0x0A))
     = Some ''# no root here'' \<and>
   count_list ''# no root here'' (CHR ''='') \<noteq> 1 \<and>
   getWSLRoot (Some ''# no root here'') = Returns ''/mnt/'' \<and>
   find (\<lambda>s. strings_Contains s ''root'') (strings_Split (''[automount]'' @ [CHR 0x0A] @ ''root = /'') (CHR 0x0A))
     = Some (''root '' @ CHR ''='' # '' /'') \<and>
   strings_TrimSpace '' /'' = ''/'' \<and>
   getWSLRoot (Some (''[automount]'' @ [CHR 0x0A] @ ''root = /'')) = Returns ''/'' \<and>
   find (\<lambda>s. strings_Contains s ''root'') (strings_Split (''root = '' @ [CHR 0x22] @ ''/win/'' @ [CHR 0x22]) (CHR 0x0A))
     = Some (''root '' @ CHR ''='' # ('' '' @ [CHR 0x22] @ ''/win/'' @ [CHR 0x22])) \<and>
   strings_TrimSpace ('' '' @ [CHR 0x22] @ ''/win/'' @ [CHR 0x22]) = CHR 0x22 # (''/win/'' @ [CHR 0x22]) \<and>
   getWSLRoot (Some (''root = '' @ [CHR 0x22] @ ''/win/'' @ [CHR 0x22])) = Returns ''/win/''"
proof -
  have f1: "find (\<lambda>s. strings_Contains s ''root'') (strings_Split ''[automount]'' (CHR 0x0A)) = None"
    by code_simp
  have f2: "find (\<lambda>s. strings_Contains s ''root'') (strings_Split ''# no root here'' (CHR 0x0A))
     = Some ''# no root here''" by code_simp
  have c2: "count_list ''# no root here'' (CHR ''='') \<noteq> 1" by code_simp
  have f3: "find (\<lambda>s. strings_Contains s ''root'') (strings_Split (''[automount]'' @ [CHR 0x0A] @ ''root = /'') (CHR 0x0A))
     = Some (''root '' @ CHR ''='' # '' /'')" by code_simp
  have t3: "strings_TrimSpace '' /'' = CHR ''/'' # []" by code_simp
  have n3: "CHR ''='' \<notin> set ''root ''" "CHR ''='' \<notin> set '' /''" "CHR ''/'' \<noteq> CHR 0x22" by simp_all
  have f4: "find (\<lambda>s. strings_Contains s ''root'') (strings_Split (''root = '' @ [CHR 0x22] @ ''/win/'' @ [CHR 0x22]) (CHR 0x0A))
     = Some (''root '' @ CHR ''='' # ('' '' @ [CHR 0x22] @ ''/win/'' @ [CHR 0x22]))" by code_simp
  have t4: "strings_TrimSpace ('' '' @ [CHR 0x22] @ ''/win/'' @ [CHR 0x22]) = CHR 0x22 # (''/win/'' @ [CHR 0x22])"
    by code_simp
  have n4: "CHR ''='' \<notin> set ('' '' @ [CHR 0x22] @ ''/win/'' @ [CHR 0x22])" "''/win/'' @ [CHR 0x22] \<noteq> []"
    by simp_all
  have b4: "butlast (''/win/'' @ [CHR 0x22]) = ''/win/''" by simp
  have r1: "getWSLRoot (Some ''[automount]'') = Returns ''/mnt/''"
    using getWSLRoot_discovery[of "''[automount]''"] f1 by blast
  have r2: "getWSLRoot (Some ''# no root here'') = Returns ''/mnt/''"
    using getWSLRoot_discovery[of "''# no root here''" "''# no root here''"] f2 c2 by blast
  have r3: "getWSLRoot (Some (''[automount]'' @ [CHR 0x0A] @ ''root = /'')) = Returns ''/''"
    using getWSLRoot_discovery[of "''[automount]'' @ [CHR 0x0A] @ ''root = /''" _ "''root ''" "'' /''" "CHR ''/''" "[]"]
      f3 t3 n3 by blast
  have r4: "getWSLRoot (Some (''root = '' @ [CHR 0x22] @ ''/win/'' @ [CHR 0x22])) = Returns ''/win/''"
    using getWSLRoot_discovery[where b="''root = '' @ [CHR 0x22] @ ''/win/'' @ [CHR 0x22]" and k="''root ''"
        and v="'' '' @ [CHR 0x22] @ ''/win/'' @ [CHR 0x22]" and t="''/win/'' @ [CHR 0x22]"]
      f4 t4 n3(1) n4 unfolding b4 by blast
  from f1 r1 f2 c2 r2 f3 t3 r3 f4 t4 r4 show ?thesis by simp
qed

theorem getWSLRoot_matches_value_counterexample:
  "\<not> strings_Contains ''hostname '' ''root'' \<and>
   getWSLRoot (Some ''hostname = rootbox'') = Returns ''rootbox''"
  by code_simp

text \<open>
  A line with \<open>root\<close> and an empty value, or with a lone double quote as its value, makes
  \<open>getWSLRoot\<close> panic: \<open>s[0]\<close> is read from the empty string, and
  \<open>s[1 : len(s)-1]\<close> has its bounds out of order.
\<close>

lemma getWSLRoot_empty_value_panics:
  "getWSLRoot (Some ''root='') = Panics"
  "getWSLRoot (Some (''root = '' @ [CHR 0x22])) = Panics"
  by code_simp+


section \<open>The policy resolver\<close>

lemma TrimSpace_Nil: "strings_TrimSpace [] = []"
  by (simp add: strings_TrimSpace_def trim_left_def trim_right_def)

lemma getvaropts_loop_append:
  "getvaropts_loop (xs @ ys) tbl =
     (case getvaropts_loop xs tbl of
        Inl err \<Rightarrow> Inl err
      | Inr tbl' \<Rightarrow> getvaropts_loop ys tbl')"
  by (induction xs arbitrary: tbl) (auto split: list.splits prod.splits)

lemma getvaropts_loop_eq:
  "getvaropts wenv tbl = getvaropts_loop (strings_Split wenv (CHR '','')) tbl"
  by (simp add: getvaropts_def TrimSpace_Nil)

lemma getvaropts_comma:
  "getvaropts (w1 @ CHR '','' # w2) tbl =
     (case getvaropts w1 tbl of
        Inl err \<Rightarrow> Inl err
      | Inr tbl' \<Rightarrow> getvaropts w2 tbl')"
  by (simp add: getvaropts_loop_eq Split_append getvaropts_loop_append split: sum.splits)

lemma getvaropts_single:
  "CHR '','' \<notin> set e \<Longrightarrow>
     getvaropts e tbl =
       (case strings_TrimSpace e of
          [] \<Rightarrow> Inr tbl
        | c # cs \<Rightarrow>
            (case getvaropts_entry c cs of
               (opt, name) \<Rightarrow> if name = [] then Inl EmptyVarName else Inr (tbl(name \<mapsto> opt))))"
  by (simp add: getvaropts_loop_eq Split_no_sep split: list.splits prod.splits)

text \<open>
  C6.  \<open>getvaropts\<close> splits the override on commas and handles the pieces from left to
  right, each on the table the pieces before it have left, so a later entry overwrites an
  earlier one and the built-in default.  A piece is trimmed; an empty piece is skipped; a
  leading \<open>!\<close>, \<open>@\<close>, \<open>#\<close> or \<open>$\<close> selects Ignore, Convert, PathList or Pass
  for the name after it, and a piece without modifier is a name to pass.  On
  \<open>!FOO, @BAR, #BAZ, $PATH\<close> both built-in tables, where \<open>PATH\<close> is a path list,
  come out with FOO ignored, BAR converted, BAZ a path list and PATH passed.
\<close>

theorem getvaropts_resolves:
  "getvaropts (w1 @ CHR '','' # w2) tbl =
     (case getvaropts w1 tbl of
        Inl err \<Rightarrow> Inl err
      | Inr tbl' \<Rightarrow> getvaropts w2 tbl') \<and>
   (CHR '','' \<notin> set e \<and> strings_TrimSpace e = [] \<longrightarrow> getvaropts e tbl = Inr tbl) \<and>
   (CHR '','' \<notin> set e \<and> name \<noteq> [] \<longrightarrow>
      (strings_TrimSpace e = CHR ''!'' # name \<longrightarrow> getvaropts e tbl = Inr (tbl(name \<mapsto> varIgnore))) \<and>
      (strings_TrimSpace e = CHR ''@'' # name \<longrightarrow> getvaropts e tbl = Inr (tbl(name \<mapsto> varConvert))) \<and>
      (strings_TrimSpace e = CHR ''#'' # name \<longrightarrow> getvaropts e tbl = Inr (tbl(name \<mapsto> varPath))) \<and>
      (strings_TrimSpace e = CHR ''$'' # name \<longrightarrow> getvaropts e tbl = Inr (tbl(name \<mapsto> varPass))) \<and>
      (strings_TrimSpace e = name \<and> hd name \<notin> set ''!@#$'' \<longrightarrow>
         getvaropts e tbl = Inr (tbl(name \<mapsto> varPass)))) \<and>
   varopts ''PATH'' = Some varPath \<and> varopts_mnt ''PATH'' = Some varPath \<and>
   getvaropts ''!FOO, @BAR, #BAZ, $PATH'' varopts =
     Inr (varopts(''FOO'' \<mapsto> varIgnore, ''BAR'' \<mapsto> varConvert, ''BAZ'' \<mapsto> varPath,
                  ''PATH'' \<mapsto> varPass)) \<and>
   getvaropts ''!FOO, @BAR, #BAZ, $PATH'' varopts_mnt =
     Inr (varopts_mnt(''FOO'' \<mapsto> varIgnore, ''BAR'' \<mapsto> varConvert, ''BAZ'' \<mapsto> varPath,
                      ''PATH'' \<mapsto> varPass))"
proof (intro conjI impI)
  show "getvaropts (w1 @ CHR '','' # w2) tbl =
     (case getvaropts w1 tbl of Inl err \<Rightarrow> Inl err | Inr tbl' \<Rightarrow> getvaropts w2 tbl')"
    by (rule getvaropts_comma)
next
  assume "CHR '','' \<notin> set e \<and> strings_TrimSpace e = []"
  then show "getvaropts e tbl = Inr tbl" by (simp add: getvaropts_single)
next
  assume "CHR '','' \<notin> set e \<and> name \<noteq> []" "strings_TrimSpace e = CHR ''!'' # name"
  then show "getvaropts e tbl = Inr (tbl(name \<mapsto> varIgnore))"
    by (simp add: getvaropts_single getvaropts_entry_def)
next
  assume "CHR '','' \<notin> set e \<and> name \<noteq> []" "strings_TrimSpace e = CHR ''@'' # name"
  then show "getvaropts e tbl = Inr (tbl(name \<mapsto> varConvert))"
    by (simp add: getvaropts_single getvaropts_entry_def)
next
  assume "CHR '','' \<notin> set e \<and> name \<noteq> []" "strings_TrimSpace e = CHR ''#'' # name"
  then show "getvaropts e tbl = Inr (tbl(name \<mapsto> varPath))"
    by (simp add: getvaropts_single getvaropts_entry_def)
next
  assume "CHR '','' \<notin> set e \<and> name \<noteq> []" "strings_TrimSpace e = CHR ''$'' # name"
  then show "getvaropts e tbl = Inr (tbl(name \<mapsto> varPass))"
    by (simp add: getvaropts_single getvaropts_entry_def)
next
  assume a: "CHR '','' \<notin> set e \<and> name \<noteq> []" "strings_TrimSpace e = name \<and> hd name \<notin> set ''!@#$''"
  then obtain c cs where n: "name = c # cs" by (cases name) auto
  with a show "getvaropts e tbl = Inr (tbl(name \<mapsto> varPass))"
    by (simp add: getvaropts_single getvaropts_entry_def)
next
  show "varopts ''PATH'' = Some varPath" by (simp add: varopts_def)
next
  show "varopts_mnt ''PATH'' = Some varPath" by (simp add: varopts_mnt_def)
next
  have s: "strings_Split ''!FOO, @BAR, #BAZ, $PATH'' (CHR '','') = [''!FOO'', '' @BAR'', '' #BAZ'', '' $PATH'']"
    by code_simp
  have t: "strings_TrimSpace ''!FOO'' = ''!FOO''" "strings_TrimSpace '' @BAR'' = ''@BAR''"
    "strings_TrimSpace '' #BAZ'' = ''#BAZ''" "strings_TrimSpace '' $PATH'' = ''$PATH''"
    by code_simp+
  have g: "getvaropts ''!FOO, @BAR, #BAZ, $PATH'' t =
     Inr (t(''FOO'' \<mapsto> varIgnore, ''BAR'' \<mapsto> varConvert, ''BAZ'' \<mapsto> varPath,
                  ''PATH'' \<mapsto> varPass))" for t
    unfolding getvaropts_loop_eq s by (simp add: t getvaropts_entry_def)
  show "getvaropts ''!FOO, @BAR, #BAZ, $PATH'' varopts =
     Inr (varopts(''FOO'' \<mapsto> varIgnore, ''BAR'' \<mapsto> varConvert, ''BAZ'' \<mapsto> varPath,
                  ''PATH'' \<mapsto> varPass))" by (rule g)
  show "getvaropts ''!FOO, @BAR, #BAZ, $PATH'' varopts_mnt =
     Inr (varopts_mnt(''FOO'' \<mapsto> varIgnore, ''BAR'' \<mapsto> varConvert, ''BAZ'' \<mapsto> varPath,
                      ''PATH'' \<mapsto> varPass))" by (rule g)
qed


theorem getvaropts_resolves_witness:
  "getvaropts ''!FOO,FOO'' varopts = Inr (varopts(''FOO'' \<mapsto> varPass)) \<and>
   strings_TrimSpace '' @BAR '' = ''@BAR'' \<and>
   getvaropts '' @BAR '' varopts = Inr (varopts(''BAR'' \<mapsto> varConvert)) \<and>
   strings_TrimSpace ''  '' = [] \<and>
   getvaropts ''  '' varopts = Inr varopts \<and>
   getvaropts ''#GOBIN'' varopts = Inr (varopts(''GOBIN'' \<mapsto> varPath)) \<and>
   getvaropts ''$!x'' varopts = Inr (varopts(''!x'' \<mapsto> varPass))"
proof -
  have c: "CHR '','' \<notin> set ''!FOO''" "CHR '','' \<notin> set ''FOO''" "CHR '','' \<notin> set '' @BAR ''"
    "CHR '','' \<notin> set ''  ''" "CHR '','' \<notin> set ''#GOBIN''" "CHR '','' \<notin> set ''$!x''"
    by simp_all
  have t: "strings_TrimSpace ''!FOO'' = CHR ''!'' # ''FOO''" "strings_TrimSpace ''FOO'' = ''FOO''"
    "strings_TrimSpace '' @BAR '' = CHR ''@'' # ''BAR''" "strings_TrimSpace ''  '' = []"
    "strings_TrimSpace ''#GOBIN'' = CHR ''#'' # ''GOBIN''" "strings_TrimSpace ''$!x'' = CHR ''$'' # ''!x''"
    by code_simp+
  have n: "''FOO'' \<noteq> []" "''BAR'' \<noteq> []" "''GOBIN'' \<noteq> []" "''!x'' \<noteq> []"
    "hd ''FOO'' \<notin> set ''!@#$''" by simp_all
  have a1: "getvaropts ''!FOO'' varopts = Inr (varopts(''FOO'' \<mapsto> varIgnore))"
    using getvaropts_resolves[where e="''!FOO''" and name="''FOO''" and tbl=varopts] c t n by blast
  have a2: "getvaropts ''FOO'' (varopts(''FOO'' \<mapsto> varIgnore)) =
              Inr ((varopts(''FOO'' \<mapsto> varIgnore))(''FOO'' \<mapsto> varPass))"
    using getvaropts_resolves[where e="''FOO''" and name="''FOO''" and tbl="varopts(''FOO'' \<mapsto> varIgnore)"]
      c t n by blast
  have "getvaropts (''!FOO'' @ CHR '','' # ''FOO'') varopts =
     (case getvaropts ''!FOO'' varopts of
        Inl err \<Rightarrow> Inl err
      | Inr tbl' \<Rightarrow> getvaropts ''FOO'' tbl')"
    using getvaropts_resolves[where ?w1.0="''!FOO''" and ?w2.0="''FOO''" and tbl=varopts] by blast
  then have a: "getvaropts ''!FOO,FOO'' varopts = Inr (varopts(''FOO'' \<mapsto> varPass))"
    unfolding a1 by (simp add: a2)
  have b: "getvaropts '' @BAR '' varopts = Inr (varopts(''BAR'' \<mapsto> varConvert))"
    using getvaropts_resolves[where e="'' @BAR ''" and name="''BAR''" and tbl=varopts] c t n by blast
  have d: "getvaropts ''  '' varopts = Inr varopts"
    using getvaropts_resolves[where e="''  ''" and tbl=varopts] c t by blast
  have e: "getvaropts ''#GOBIN'' varopts = Inr (varopts(''GOBIN'' \<mapsto> varPath))"
    using getvaropts_resolves[where e="''#GOBIN''" and name="''GOBIN''" and tbl=varopts] c t n by blast
  have f: "getvaropts ''$!x'' varopts = Inr (varopts(''!x'' \<mapsto> varPass))"
    using getvaropts_resolves[where e="''$!x''" and name="''!x''" and tbl=varopts] c t n by blast
  from a b d e f t show ?thesis by simp
qed


section \<open>The environment collector\<close>

lemma parse_vars_explicit:
  "\<forall>(k, v)\<in>set kvs. CHR ''='' \<notin> set k \<Longrightarrow> CHR ''='' \<notin> set cmd \<Longrightarrow>
     parse_vars (map (\<lambda>(k, v). k @ CHR ''='' # v) kvs @ cmd # rest) vars =
       (fold (\<lambda>(k, v). AList.update k v) kvs vars, cmd # rest)"
proof (induction kvs arbitrary: vars)
  case Nil
  then show ?case by (simp add: SplitN2_no_sep)
next
  case (Cons kv kvs)
  obtain k v where kv: "kv = (k, v)" by (cases kv)
  with Cons.prems have "CHR ''='' \<notin> set k" by simp
  then have "strings_SplitN2 (k @ CHR ''='' # v) (CHR ''='') = [k, v]" by (rule SplitN2_sep)
  with Cons kv show ?case by simp
qed

lemma fold_update_not_Nil:
  "kvs \<noteq> [] \<or> vars \<noteq> [] \<Longrightarrow> fold (\<lambda>(k, v). AList.update k v) kvs vars \<noteq> []"
proof (induction kvs arbitrary: vars)
  case Nil
  then show ?case by simp
next
  case (Cons kv kvs)
  obtain k v where kv: "kv = (k, v)" by (cases kv)
  have "AList.update k v vars \<noteq> []" by (rule update_nonempty)
  then have "fold (\<lambda>(k, v). AList.update k v) kvs (AList.update k v vars) \<noteq> []"
    by (intro Cons.IH) simp
  then show ?case using kv by simp
qed

lemma map_upd_add: "m(k \<mapsto> v) ++ n = m ++ ([k \<mapsto> v] ++ n)"
proof -
  have "m(k \<mapsto> v) = m ++ [k \<mapsto> v]" by simp
  then show ?thesis by (simp only: map_add_assoc)
qed

lemma map_of_fold_update:
  "map_of (fold (\<lambda>(k, v). AList.update k v) kvs vars) = map_of vars ++ map_of (rev kvs)"
proof (induction kvs arbitrary: vars)
  case Nil
  show ?case by simp
next
  case (Cons kv kvs)
  obtain k v where kv: "kv = (k, v)" by (cases kv)
  have "map_of (fold (\<lambda>(k, v). AList.update k v) (kv # kvs) vars)
          = map_of (AList.update k v vars) ++ map_of (rev kvs)"
    using Cons.IH[of "AList.update k v vars"] kv by simp
  also have "\<dots> = (map_of vars)(k \<mapsto> v) ++ map_of (rev kvs)"
    by (simp only: update_conv')
  also have "\<dots> = map_of vars ++ ([k \<mapsto> v] ++ map_of (rev kvs))"
    by (rule map_upd_add)
  also have "[k \<mapsto> v] ++ map_of (rev kvs) = map_of (rev (kv # kvs))"
    using kv by simp
  finally show ?case .
qed

lemma collect_explicit:
  assumes "kvs \<noteq> []" "\<forall>(k, v)\<in>set kvs. CHR ''='' \<notin> set k" "CHR ''='' \<notin> set cmd"
  shows "collect wp tbl st (map (\<lambda>(k, v). k @ CHR ''='' # v) kvs @ cmd # rest) environ =
           Collected (fold (\<lambda>(k, v). AList.update k v) kvs []) (cmd # rest)"
  using assms fold_update_not_Nil[of kvs "[]"]
  by (simp add: collect_def parse_vars_explicit)

text \<open>
  C7.  When the command line starts with one or more \<open>name=value\<close> arguments, the
  variables to transmit are those pairs and nothing else, a later pair replacing an earlier
  one of the same name: the result does not depend on the environment, on \<open>WENV\<close>, on
  the table or on the configuration file, and no value is converted.
  \<open>wenv FOO=/mnt/c/x cmd.exe\<close> transmits \<open>FOO\<close> with the value \<open>/mnt/c/x\<close>.
\<close>

theorem explicit_vars_verbatim:
  "(kvs \<noteq> [] \<and> (\<forall>(k, v)\<in>set kvs. CHR ''='' \<notin> set k) \<and> CHR ''='' \<notin> set cmd \<longrightarrow>
      wenv_vars conf (map (\<lambda>(k, v). k @ CHR ''='' # v) kvs @ cmd # rest) environ =
        Collected (fold (\<lambda>(k, v). AList.update k v) kvs []) (cmd # rest) \<and>
      wenv_vars_mnt (map (\<lambda>(k, v). k @ CHR ''='' # v) kvs @ cmd # rest) environ =
        Collected (fold (\<lambda>(k, v). AList.update k v) kvs []) (cmd # rest) \<and>
      map_of (fold (\<lambda>(k, v). AList.update k v) kvs []) = map_of (rev kvs)) \<and>
   wenv_vars conf [''FOO=/mnt/c/x'', ''cmd.exe''] environ =
     Collected [(''FOO'', ''/mnt/c/x'')] [''cmd.exe''] \<and>
   wenv_vars_mnt [''FOO=/mnt/c/x'', ''cmd.exe''] environ =
     Collected [(''FOO'', ''/mnt/c/x'')] [''cmd.exe'']"
proof (intro conjI impI)
  assume a: "kvs \<noteq> [] \<and> (\<forall>(k, v)\<in>set kvs. CHR ''='' \<notin> set k) \<and> CHR ''='' \<notin> set cmd"
  then show "wenv_vars conf (map (\<lambda>(k, v). k @ CHR ''='' # v) kvs @ cmd # rest) environ =
        Collected (fold (\<lambda>(k, v). AList.update k v) kvs []) (cmd # rest)"
    unfolding wenv_vars_def by (intro collect_explicit) auto
  from a show "wenv_vars_mnt (map (\<lambda>(k, v). k @ CHR ''='' # v) kvs @ cmd # rest) environ =
        Collected (fold (\<lambda>(k, v). AList.update k v) kvs []) (cmd # rest)"
    unfolding wenv_vars_mnt_def by (intro collect_explicit) auto
  show "map_of (fold (\<lambda>(k, v). AList.update k v) kvs []) = map_of (rev kvs)"
    by (simp add: map_of_fold_update)
next
  have c: "collect wp tbl st [''FOO=/mnt/c/x'', ''cmd.exe''] environ =
     Collected [(''FOO'', ''/mnt/c/x'')] [''cmd.exe'']" for wp :: "'s \<Rightarrow> string \<Rightarrow> ('s \<times> (error + string)) result" and tbl st
    using collect_explicit[of "[(''FOO'', ''/mnt/c/x'')]" "''cmd.exe''" wp tbl st "[]" environ]
    by simp
  show "wenv_vars conf [''FOO=/mnt/c/x'', ''cmd.exe''] environ =
     Collected [(''FOO'', ''/mnt/c/x'')] [''cmd.exe'']"
    unfolding wenv_vars_def by (rule c)
  show "wenv_vars_mnt [''FOO=/mnt/c/x'', ''cmd.exe''] environ =
     Collected [(''FOO'', ''/mnt/c/x'')] [''cmd.exe'']"
    unfolding wenv_vars_mnt_def by (rule c)
qed


theorem explicit_vars_verbatim_witness:
  "wenv_vars None (map (\<lambda>(k, v). k @ CHR ''='' # v) [(''A'', ''/mnt/c''), (''B'', ''x=y''), (''A'', ''z'')] @ ''cmd.exe'' # [''/c'', ''set''])
      [''PATH=/usr/bin'', ''WENV=!A''] =
     Collected [(''A'', ''z''), (''B'', ''x=y'')] (''cmd.exe'' # [''/c'', ''set'']) \<and>
   map_of [(''A'', ''z''), (''B'', ''x=y'')] = map_of (rev [(''A'', ''/mnt/c''), (''B'', ''x=y''), (''A'', ''z'')])"
proof -
  have h: "[(''A'', ''/mnt/c''), (''B'', ''x=y''), (''A'', ''z'')] \<noteq> [] \<and>
    (\<forall>(k, v)\<in>set [(''A'', ''/mnt/c''), (''B'', ''x=y''), (''A'', ''z'')]. CHR ''='' \<notin> set k) \<and>
    CHR ''='' \<notin> set ''cmd.exe''" by simp
  have f: "fold (\<lambda>(k, v). AList.update k v) [(''A'', ''/mnt/c''), (''B'', ''x=y''), (''A'', ''z'')] [] =
    [(''A'', ''z''), (''B'', ''x=y'')]" by simp
  from explicit_vars_verbatim[where kvs="[(''A'', ''/mnt/c''), (''B'', ''x=y''), (''A'', ''z'')]"
      and cmd="''cmd.exe''" and rest="[''/c'', ''set'']" and conf=None
      and environ="[''PATH=/usr/bin'', ''WENV=!A'']"] h
  show ?thesis unfolding f by blast
qed


lemma convert_list_winpath:
  "mount_root conf st = Returns root \<Longrightarrow>
     \<exists>st'. convert_list (winpath conf) st es p =
             Returns (st', p @ map projr (filter (\<lambda>r. \<not> isl r) (map (winpath_root root) es))) \<and>
           mount_root conf st' = Returns root"
proof (induction es arbitrary: st p)
  case Nil
  then show ?case by simp
next
  case (Cons e es)
  have w: "winpath conf st e = Returns (root, winpath_root root e)"
    using Cons.prems by (rule winpath_Returns)
  have m: "mount_root conf root = Returns root"
    using Cons.prems by (rule mount_root_again)
  show ?case
  proof (cases "winpath_root root e")
    case (Inl err)
    from Cons.IH[OF m, of p] w Inl show ?thesis by simp
  next
    case (Inr x)
    from Cons.IH[OF m, of "p @ [x]"] w Inr show ?thesis by simp
  qed
qed

lemma convert_list_mnt:
  "convert_list (\<lambda>st path. Returns (st, winpath_mnt path)) () es p =
     Returns ((), p @ map projr (filter (\<lambda>r. \<not> isl r) (map winpath_mnt es)))"
proof (induction es arbitrary: p)
  case Nil
  show ?case by simp
next
  case (Cons e es)
  show ?case
  proof (cases "winpath_mnt e")
    case (Inl err)
    with Cons[of p] show ?thesis by simp
  next
    case (Inr x)
    with Cons[of "p @ [x]"] show ?thesis by simp
  qed
qed

lemma filter_all_fail:
  "\<forall>e\<in>set es. isl (f e) \<Longrightarrow> filter (\<lambda>r. \<not> isl r) (map f es) = []"
  by (induction es) auto

text \<open>
  C2, as amended.  For a variable whose policy is PathList the collector splits the value
  on colons, converts every segment with \<open>winpath\<close>, the empty ones included (an
  empty segment converts to the empty string and is kept), drops the segments whose
  conversion fails and joins the converted ones, in order, with semicolons.  When every
  segment fails the variable is still stored, with the empty string as its value.  With the
  built-in tables and no configuration file, \<open>PATH=/mnt/c/a:/mnt/d/b\<close> is transmitted
  as \<open>C:\<close>, backslash, \<open>a;D:\<close>, backslash, \<open>b\<close>, and \<open>PATH=/usr/bin:/bin\<close>
  as the empty string.
\<close>

theorem pathlist_conversion:
  "(tbl k = Some varPath \<and> CHR ''='' \<notin> set k \<and> regexp_literal root \<and>
      mount_root conf wslRoot = Returns root \<longrightarrow>
      (\<exists>st'. collect_entry (winpath conf) tbl wslRoot (k @ CHR ''='' # v) vars =
         Returns (st', AList.update k
           (strings_Join (map projr (filter (\<lambda>r. \<not> isl r)
              (map (winpath_root root) (strings_Split v (CHR '':''))))) '';'') vars)) \<and>
      ((\<forall>e\<in>set (strings_Split v (CHR '':'')). isl (winpath_root root e)) \<longrightarrow>
       (\<exists>st'. collect_entry (winpath conf) tbl wslRoot (k @ CHR ''='' # v) vars =
         Returns (st', AList.update k [] vars)))) \<and>
   (tbl k = Some varPath \<and> CHR ''='' \<notin> set k \<longrightarrow>
      collect_entry (\<lambda>st path. Returns (st, winpath_mnt path)) tbl () (k @ CHR ''='' # v) vars =
         Returns ((), AList.update k
           (strings_Join (map projr (filter (\<lambda>r. \<not> isl r)
              (map winpath_mnt (strings_Split v (CHR '':''))))) '';'') vars) \<and>
      ((\<forall>e\<in>set (strings_Split v (CHR '':'')). isl (winpath_mnt e)) \<longrightarrow>
       collect_entry (\<lambda>st path. Returns (st, winpath_mnt path)) tbl () (k @ CHR ''='' # v) vars =
         Returns ((), AList.update k [] vars))) \<and>
   wenv_vars None [''cmd.exe''] [''PATH=/mnt/c/a:/mnt/d/b''] =
     Collected [(''PATH'', ''C:'' @ [bslash] @ ''a;D:'' @ [bslash] @ ''b'')] [''cmd.exe''] \<and>
   wenv_vars_mnt [''cmd.exe''] [''PATH=/mnt/c/a:/mnt/d/b''] =
     Collected [(''PATH'', ''C:'' @ [bslash] @ ''a;D:'' @ [bslash] @ ''b'')] [''cmd.exe''] \<and>
   wenv_vars None [''cmd.exe''] [''PATH=/usr/bin:/bin''] = Collected [(''PATH'', [])] [''cmd.exe''] \<and>
   wenv_vars_mnt [''cmd.exe''] [''PATH=/usr/bin:/bin''] = Collected [(''PATH'', [])] [''cmd.exe'']"
proof -
  have a: "\<exists>st'. collect_entry (winpath conf) tbl wslRoot (k @ CHR ''='' # v) vars =
         Returns (st', AList.update k
           (strings_Join (map projr (filter (\<lambda>r. \<not> isl r)
              (map (winpath_root root) (strings_Split v (CHR '':''))))) '';'') vars)"
    if h: "tbl k = Some varPath \<and> CHR ''='' \<notin> set k \<and> regexp_literal root \<and>
      mount_root conf wslRoot = Returns root"
  proof -
    from h have s: "strings_SplitN2 (k @ CHR ''='' # v) (CHR ''='') = [k, v]"
      by (simp add: SplitN2_sep)
    from h convert_list_winpath[of conf wslRoot root "strings_Split v (CHR '':'')" "[]"]
    obtain st' where "convert_list (winpath conf) wslRoot (strings_Split v (CHR '':'')) [] =
        Returns (st', map projr (filter (\<lambda>r. \<not> isl r)
              (map (winpath_root root) (strings_Split v (CHR '':'')))))" by auto
    with h show ?thesis by (simp add: collect_entry_def s)
  qed
  have b: "collect_entry (\<lambda>st path. Returns (st, winpath_mnt path)) tbl () (k @ CHR ''='' # v) vars =
         Returns ((), AList.update k
           (strings_Join (map projr (filter (\<lambda>r. \<not> isl r)
              (map winpath_mnt (strings_Split v (CHR '':''))))) '';'') vars)"
    if h: "tbl k = Some varPath \<and> CHR ''='' \<notin> set k"
  proof -
    from h have s: "strings_SplitN2 (k @ CHR ''='' # v) (CHR ''='') = [k, v]"
      by (simp add: SplitN2_sep)
    from h show ?thesis unfolding collect_entry_def s convert_list_mnt by simp
  qed
  have e1: "wenv_vars None [''cmd.exe''] [''PATH=/mnt/c/a:/mnt/d/b''] =
     Collected [(''PATH'', ''C:'' @ [bslash] @ ''a;D:'' @ [bslash] @ ''b'')] [''cmd.exe'']"
    by code_simp
  have e2: "wenv_vars_mnt [''cmd.exe''] [''PATH=/mnt/c/a:/mnt/d/b''] =
     Collected [(''PATH'', ''C:'' @ [bslash] @ ''a;D:'' @ [bslash] @ ''b'')] [''cmd.exe'']"
    by code_simp
  have e3: "wenv_vars None [''cmd.exe''] [''PATH=/usr/bin:/bin''] = Collected [(''PATH'', [])] [''cmd.exe'']"
    by code_simp
  have e4: "wenv_vars_mnt [''cmd.exe''] [''PATH=/usr/bin:/bin''] = Collected [(''PATH'', [])] [''cmd.exe'']"
    by code_simp
  show ?thesis
  proof (intro conjI impI)
    assume h: "tbl k = Some varPath \<and> CHR ''='' \<notin> set k \<and> regexp_literal root \<and>
      mount_root conf wslRoot = Returns root"
    from a[OF h] show "\<exists>st'. collect_entry (winpath conf) tbl wslRoot (k @ CHR ''='' # v) vars =
         Returns (st', AList.update k
           (strings_Join (map projr (filter (\<lambda>r. \<not> isl r)
              (map (winpath_root root) (strings_Split v (CHR '':''))))) '';'') vars)" .
    assume f: "\<forall>e\<in>set (strings_Split v (CHR '':'')). isl (winpath_root root e)"
    from a[OF h] show "\<exists>st'. collect_entry (winpath conf) tbl wslRoot (k @ CHR ''='' # v) vars =
         Returns (st', AList.update k [] vars)"
      unfolding filter_all_fail[OF f] by simp
  next
    assume h: "tbl k = Some varPath \<and> CHR ''='' \<notin> set k"
    from b[OF h] show "collect_entry (\<lambda>st path. Returns (st, winpath_mnt path)) tbl () (k @ CHR ''='' # v) vars =
         Returns ((), AList.update k
           (strings_Join (map projr (filter (\<lambda>r. \<not> isl r)
              (map winpath_mnt (strings_Split v (CHR '':''))))) '';'') vars)" .
    assume f: "\<forall>e\<in>set (strings_Split v (CHR '':'')). isl (winpath_mnt e)"
    from b[OF h] show "collect_entry (\<lambda>st path. Returns (st, winpath_mnt path)) tbl () (k @ CHR ''='' # v) vars =
         Returns ((), AList.update k [] vars)"
      unfolding filter_all_fail[OF f] by simp
  qed (rule e1 e2 e3 e4)+
qed


theorem pathlist_conversion_witness:
  "varopts ''PATH'' = Some varPath \<and> regexp_literal ''/mnt/'' \<and>
   mount_root None [] = Returns ''/mnt/'' \<and>
   (\<exists>st'. collect_entry (winpath None) varopts [] (''PATH'' @ CHR ''='' # ''/mnt/c/a:/home/u/bin:/mnt/d/b'') [] =
      Returns (st', [(''PATH'', ''C:'' @ [bslash] @ ''a;D:'' @ [bslash] @ ''b'')])) \<and>
   (\<exists>st'. collect_entry (winpath None) varopts [] (''PATH'' @ CHR ''='' # ''/usr/bin:/bin'') [] =
      Returns (st', [(''PATH'', [])])) \<and>
   varopts_mnt ''PATH'' = Some varPath \<and>
   collect_entry (\<lambda>st path. Returns (st, winpath_mnt path)) varopts_mnt () (''PATH'' @ CHR ''='' # ''/c/a:/tmp:bin'') [] =
      Returns ((), [(''PATH'', ''C:'' @ [bslash] @ ''a;bin'')])"
proof -
  have h1: "varopts ''PATH'' = Some varPath" by (simp add: varopts_def)
  have h2: "CHR ''='' \<notin> set ''PATH''" by simp
  have h3: "mount_root None [] = Returns ''/mnt/''" by (rule mount_root_absent)
  have h5: "regexp_literal ''/mnt/''" by code_simp
  have h4: "varopts_mnt ''PATH'' = Some varPath" by (simp add: varopts_mnt_def)
  have j1: "strings_Join (map projr (filter (\<lambda>r. \<not> isl r)
              (map (winpath_root ''/mnt/'') (strings_Split ''/mnt/c/a:/home/u/bin:/mnt/d/b'' (CHR '':''))))) '';''
            = ''C:'' @ [bslash] @ ''a;D:'' @ [bslash] @ ''b''" by code_simp
  have f2: "\<forall>e\<in>set (strings_Split ''/usr/bin:/bin'' (CHR '':'')). isl (winpath_root ''/mnt/'' e)"
    by code_simp
  have j3: "strings_Join (map projr (filter (\<lambda>r. \<not> isl r)
              (map winpath_mnt (strings_Split ''/c/a:/tmp:bin'' (CHR '':''))))) '';''
            = ''C:'' @ [bslash] @ ''a;bin''" by code_simp
  have u: "AList.update ''PATH'' x [] = [(''PATH'', x)]" for x :: string by simp
  note T1 = pathlist_conversion[where tbl=varopts and k="''PATH''" and conf=None and wslRoot="[]"
      and root="''/mnt/''" and v="''/mnt/c/a:/home/u/bin:/mnt/d/b''" and vars="[]"]
  from T1 h1 h2 h3 h5 have
    a: "\<exists>st'. collect_entry (winpath None) varopts [] (''PATH'' @ CHR ''='' # ''/mnt/c/a:/home/u/bin:/mnt/d/b'') [] =
      Returns (st', [(''PATH'', ''C:'' @ [bslash] @ ''a;D:'' @ [bslash] @ ''b'')])"
    unfolding j1 u by blast
  note T2 = pathlist_conversion[where tbl=varopts and k="''PATH''" and conf=None and wslRoot="[]"
      and root="''/mnt/''" and v="''/usr/bin:/bin''" and vars="[]"]
  from T2 h1 h2 h3 h5 f2 have
    b: "\<exists>st'. collect_entry (winpath None) varopts [] (''PATH'' @ CHR ''='' # ''/usr/bin:/bin'') [] =
      Returns (st', [(''PATH'', [])])"
    unfolding u by blast
  note T3 = pathlist_conversion[where tbl=varopts_mnt and k="''PATH''" and v="''/c/a:/tmp:bin''" and vars="[]"]
  from T3 h4 h2 have
    c: "collect_entry (\<lambda>st path. Returns (st, winpath_mnt path)) varopts_mnt () (''PATH'' @ CHR ''='' # ''/c/a:/tmp:bin'') [] =
      Returns ((), [(''PATH'', ''C:'' @ [bslash] @ ''a;bin'')])"
    unfolding j3 u by blast
  from h1 h3 h4 h5 a b c show ?thesis by blast
qed

text \<open>
  An empty segment is not skipped: the value \<open>a::b\<close> splits into three segments and
  is transmitted with two semicolons.
\<close>

theorem pathlist_empty_segment_counterexample:
  "strings_Split ''a::b'' (CHR '':'') = [''a'', [], ''b''] \<and>
   wenv_vars None [''cmd.exe''] [''PATH=a::b''] = Collected [(''PATH'', ''a;;b'')] [''cmd.exe''] \<and>
   wenv_vars_mnt [''cmd.exe''] [''PATH=a::b''] = Collected [(''PATH'', ''a;;b'')] [''cmd.exe''] \<and>
   wenv_vars None [''cmd.exe''] [''PATH=/mnt/c/a::/mnt/d/b''] =
     Collected [(''PATH'', ''C:'' @ [bslash] @ ''a;;D:'' @ [bslash] @ ''b'')] [''cmd.exe''] \<and>
   wenv_vars_mnt [''cmd.exe''] [''PATH=/mnt/c/a::/mnt/d/b''] =
     Collected [(''PATH'', ''C:'' @ [bslash] @ ''a;;D:'' @ [bslash] @ ''b'')] [''cmd.exe'']"
  by code_simp


section \<open>The launcher's retry loop\<close>

lemma exec_loop_skip:
  "i \<le> n \<Longrightarrow> n \<le> 10 \<Longrightarrow> (\<forall>j. i \<le> j \<and> j < n \<longrightarrow> ex j = ExecFails (Errno ENOMEM)) \<Longrightarrow>
     exec_loop ex i = exec_loop ex n"
proof (induction "n - i" arbitrary: i)
  case 0
  then show ?case by simp
next
  case (Suc d)
  then have lt: "i < n" and e: "ex i = ExecFails (Errno ENOMEM)" by auto
  have "exec_loop ex i = exec_loop ex (i + 1)"
    using e lt Suc.prems(2) by (subst exec_loop.simps) simp
  also have "\<dots> = exec_loop ex n"
    using Suc.hyps(1)[of "i + 1"] Suc.hyps(2) Suc.prems lt by auto
  finally show ?case .
qed

lemma exec_loop_counter: "i \<le> 10 \<Longrightarrow> fst (exec_loop ex i) \<le> 10"
proof (induction ex i rule: exec_loop.induct)
  case (1 ex i)
  show ?case
  proof (cases "ex i")
    case ImageReplaced
    then show ?thesis using "1.prems" by (subst exec_loop.simps) simp
  next
    case (ExecFails err)
    show ?thesis
    proof (cases "err = Errno ENOMEM \<and> i < 10")
      case True
      with "1.IH"[OF ExecFails True] ExecFails show ?thesis
        by (subst exec_loop.simps) simp
    next
      case False
      with ExecFails "1.prems" show ?thesis by (subst exec_loop.simps) auto
    qed
  qed
qed

text \<open>
  C4, as amended.  In the first listing a \<open>syscall.Exec\<close> that fails with
  \<open>ENOMEM\<close> is called again, at most 10 times after the first call: when every call
  fails with \<open>ENOMEM\<close> the launcher returns 1 after the tenth retry.  Any other
  failure ends the loop at once with 1, without another call, and the loop counter never
  exceeds 10.  The second listing calls \<open>syscall.Exec\<close> once: every failure,
  \<open>ENOMEM\<close> included, returns 1 at once.
\<close>

theorem exec_retry_bounded:
  "((\<forall>j\<le>10. ex j = ExecFails (Errno ENOMEM)) \<longrightarrow> exec_loop ex 0 = (10, Returned 1)) \<and>
   (n \<le> 10 \<and> (\<forall>j<n. ex j = ExecFails (Errno ENOMEM)) \<and> ex n = ExecFails err \<and>
      err \<noteq> Errno ENOMEM \<longrightarrow> exec_loop ex 0 = (n, Returned 1)) \<and>
   (n \<le> 10 \<and> (\<forall>j<n. ex j = ExecFails (Errno ENOMEM)) \<and> ex n = ImageReplaced \<longrightarrow>
      exec_loop ex 0 = (n, Replaced)) \<and>
   fst (exec_loop ex 0) \<le> 10 \<and>
   (ex 0 = ExecFails err \<longrightarrow> exec_once ex = (0, Returned 1)) \<and>
   (ex 0 = ImageReplaced \<longrightarrow> exec_once ex = (0, Replaced))"
proof (intro conjI impI)
  assume a: "\<forall>j\<le>10. ex j = ExecFails (Errno ENOMEM)"
  then have "exec_loop ex 0 = exec_loop ex 10" by (intro exec_loop_skip) auto
  also have "\<dots> = (10, Returned 1)" using a by (subst exec_loop.simps) simp
  finally show "exec_loop ex 0 = (10, Returned 1)" .
next
  assume a: "n \<le> 10 \<and> (\<forall>j<n. ex j = ExecFails (Errno ENOMEM)) \<and> ex n = ExecFails err \<and>
      err \<noteq> Errno ENOMEM"
  then have "exec_loop ex 0 = exec_loop ex n" by (intro exec_loop_skip) auto
  also have "\<dots> = (n, Returned 1)" using a by (subst exec_loop.simps) simp
  finally show "exec_loop ex 0 = (n, Returned 1)" .
next
  assume a: "n \<le> 10 \<and> (\<forall>j<n. ex j = ExecFails (Errno ENOMEM)) \<and> ex n = ImageReplaced"
  then have "exec_loop ex 0 = exec_loop ex n" by (intro exec_loop_skip) auto
  also have "\<dots> = (n, Replaced)" using a by (subst exec_loop.simps) simp
  finally show "exec_loop ex 0 = (n, Replaced)" .
next
  show "fst (exec_loop ex 0) \<le> 10" by (rule exec_loop_counter) simp
next
  assume "ex 0 = ExecFails err"
  then show "exec_once ex = (0, Returned 1)" by (simp add: exec_once_def)
next
  assume "ex 0 = ImageReplaced"
  then show "exec_once ex = (0, Replaced)" by (simp add: exec_once_def)
qed

theorem exec_retry_bounded_witness:
  "exec_loop (\<lambda>i. ExecFails (Errno ENOMEM)) 0 = (10, Returned 1) \<and>
   exec_loop (\<lambda>i. if i < 3 then ExecFails (Errno ENOMEM) else ExecFails (Errno 13)) 0 = (3, Returned 1) \<and>
   exec_loop (\<lambda>i. ExecFails OtherError) 0 = (0, Returned 1) \<and>
   exec_loop (\<lambda>i. if i < 2 then ExecFails (Errno ENOMEM) else ImageReplaced) 0 = (2, Replaced) \<and>
   exec_once (\<lambda>i. ExecFails (Errno 13)) = (0, Returned 1) \<and>
   exec_once (\<lambda>i. ImageReplaced) = (0, Replaced)"
proof -
  have a: "exec_loop (\<lambda>i. ExecFails (Errno ENOMEM)) 0 = (10, Returned 1)"
    using exec_retry_bounded[of "\<lambda>i. ExecFails (Errno ENOMEM)" 0 OtherError] by simp
  have b: "exec_loop (\<lambda>i. if i < 3 then ExecFails (Errno ENOMEM) else ExecFails (Errno 13)) 0 = (3, Returned 1)"
    using exec_retry_bounded[of "\<lambda>i. if i < 3 then ExecFails (Errno ENOMEM) else ExecFails (Errno 13)" 3 "Errno 13"]
    by (simp add: ENOMEM_def)
  have c: "exec_loop (\<lambda>i. ExecFails OtherError) 0 = (0, Returned 1)"
    using exec_retry_bounded[of "\<lambda>i. ExecFails OtherError" 0 OtherError] by simp
  have d: "exec_loop (\<lambda>i. if i < 2 then ExecFails (Errno ENOMEM) else ImageReplaced) 0 = (2, Replaced)"
    using exec_retry_bounded[of "\<lambda>i. if i < 2 then ExecFails (Errno ENOMEM) else ImageReplaced" 2 OtherError]
    by simp
  have e: "exec_once (\<lambda>i. ExecFails (Errno 13)) = (0, Returned 1)"
    using exec_retry_bounded[of "\<lambda>i. ExecFails (Errno 13)" 0 "Errno 13"] by simp
  have f: "exec_once (\<lambda>i. ImageReplaced) = (0, Replaced)"
    using exec_retry_bounded[of "\<lambda>i. ImageReplaced" 0 OtherError] by simp
  from a b c d e f show ?thesis by simp
qed

theorem exec_once_no_retry_counterexample:
  "exec_once (\<lambda>i. if i = 0 then ExecFails (Errno ENOMEM) else ImageReplaced) = (0, Returned 1) \<and>
   exec_loop (\<lambda>i. if i = 0 then ExecFails (Errno ENOMEM) else ImageReplaced) 0 = (1, Replaced)"
proof -
  have "exec_loop (\<lambda>i. if i = 0 then ExecFails (Errno ENOMEM) else ImageReplaced) 0 =
          exec_loop (\<lambda>i. if i = 0 then ExecFails (Errno ENOMEM) else ImageReplaced) 1"
    by (subst exec_loop.simps) simp
  also have "\<dots> = (1, Replaced)"
    by (subst exec_loop.simps) simp
  finally show ?thesis by (simp add: exec_once_def)
qed


section \<open>The boundary helper\<close>

text \<open>
  C8.  The helper builds the command from the target path and argument vector with its own
  standard input, output and error.  When \<open>Start\<close> fails it exits with 126.  After
  \<open>Wait\<close> it exits with the child's exit status: the status carried by the
  \<open>*exec.ExitError\<close>, or 0 when \<open>Wait\<close> returns \<open>nil\<close>; for a child that exited
  with status \<open>n\<close> this is \<open>n\<close>.  Any other error of \<open>Wait\<close> gives 126.
\<close>

theorem helper_exit_code:
  "helper_cmd (path # argv) =
     Returns \<lparr>Path = path, Args = argv,
              Stdin = os_Stdin, Stdout = os_Stdout, Stderr = os_Stderr\<rparr> \<and>
   (start \<lparr>Path = path, Args = argv,
           Stdin = os_Stdin, Stdout = os_Stdout, Stderr = os_Stderr\<rparr> = StartFails \<longrightarrow>
      helper_run start wait (path # argv) = Returns 126) \<and>
   (start \<lparr>Path = path, Args = argv,
           Stdin = os_Stdin, Stdout = os_Stdout, Stderr = os_Stderr\<rparr> = StartOk \<longrightarrow>
      helper_run start WaitOk (path # argv) = Returns 0 \<and>
      helper_run start (ExitError (Some n)) (path # argv) = Returns n \<and>
      helper_run start (cmd_Wait n) (path # argv) = Returns n \<and>
      helper_run start WaitFails (path # argv) = Returns 126)"
  by (simp add: helper_cmd_def helper_run_def cmd_Wait_def)

theorem helper_exit_code_witness:
  "(\<lambda>c. StartFails) \<lparr>Path = ''C:/w/cmd.exe'', Args = [''cmd.exe'', ''/c'', ''dir''],
           Stdin = os_Stdin, Stdout = os_Stdout, Stderr = os_Stderr\<rparr> = StartFails \<and>
   helper_run (\<lambda>c. StartFails) WaitOk [''C:/w/cmd.exe'', ''cmd.exe'', ''/c'', ''dir''] = Returns 126 \<and>
   (\<lambda>c. StartOk) \<lparr>Path = ''C:/w/cmd.exe'', Args = [''cmd.exe'', ''/c'', ''dir''],
           Stdin = os_Stdin, Stdout = os_Stdout, Stderr = os_Stderr\<rparr> = StartOk \<and>
   helper_run (\<lambda>c. StartOk) (cmd_Wait 3) [''C:/w/cmd.exe'', ''cmd.exe'', ''/c'', ''dir''] = Returns 3 \<and>
   helper_run (\<lambda>c. StartOk) (cmd_Wait 0) [''C:/w/cmd.exe'', ''cmd.exe'', ''/c'', ''dir''] = Returns 0 \<and>
   helper_run (\<lambda>c. StartOk) WaitFails [''C:/w/cmd.exe'', ''cmd.exe'', ''/c'', ''dir''] = Returns 126"
proof -
  note a = helper_exit_code[of "''C:/w/cmd.exe''" "[''cmd.exe'', ''/c'', ''dir'']" "\<lambda>c. StartFails" WaitOk 0]
  note b = helper_exit_code[of "''C:/w/cmd.exe''" "[''cmd.exe'', ''/c'', ''dir'']" "\<lambda>c. StartOk" WaitOk 3]
  note c = helper_exit_code[of "''C:/w/cmd.exe''" "[''cmd.exe'', ''/c'', ''dir'']" "\<lambda>c. StartOk" WaitOk 0]
  from a b c show ?thesis by blast
qed

end
